theory Spec2Isabelle
  imports Main "HOL-Library.Word"
begin

unbundle bit_operations_syntax

section \<open>Object file output of the assembler (src/asm/output.c)\<close>

text \<open>
  A shallow embedding of \<^verbatim>\<open>output.c\<close>.  Heap objects that the C code shares by
  pointer (file stack nodes, symbols, sections) live in explicit stores indexed by
  addresses; a pointer that the code tests against \<^verbatim>\<open>NULL\<close> is an \<open>addr option\<close>.
  Every \<^verbatim>\<open>fatalerror\<close>, failed \<^verbatim>\<open>assert\<close> and out-of-buffer access of the C code is
  a value of type \<open>failure\<close>; the bytes written to the \<^verbatim>\<open>FILE\<close> are a list of bytes.
\<close>

type_synonym u8 = "8 word"

type_synonym u32 = "32 word"

type_synonym addr = nat

type_synonym cstring = "u8 list"

datatype failure =
    TooManyFileStackNodes   \<comment> \<open>fatalerror in \<^verbatim>\<open>out_RegisterNode\<close>\<close>
  | TooManySymbols          \<comment> \<open>fatalerror in \<^verbatim>\<open>registerSymbol\<close>\<close>
  | NoMemoryForPatch        \<comment> \<open>fatalerror in \<^verbatim>\<open>allocpatch\<close>, first malloc\<close>
  | NoMemoryForRPN          \<comment> \<open>fatalerror in \<^verbatim>\<open>allocpatch\<close>, second malloc\<close>
  | UnknownSection          \<comment> \<open>fatalerror in \<^verbatim>\<open>getsectid\<close>\<close>
  | FstackNodeOrder         \<comment> \<open>fatalerror "Internal error: fstack node ... follows ..."\<close>
  | AssertionFailed         \<comment> \<open>a failed C \<^verbatim>\<open>assert\<close>\<close>
  | InvalidAccess           \<comment> \<open>NULL dereference or access outside a buffer\<close>

subsection \<open>Byte-stream encoder\<close>

text \<open>
  \<^verbatim>\<open>fputc\<close> writes its argument converted to \<^verbatim>\<open>unsigned char\<close>; the conversion
  is written at each call (\<open>ucast\<close>).
\<close>

definition fputc :: "u8 \<Rightarrow> u8 list" where
  "fputc c = [c]"

definition fputlong :: "u32 \<Rightarrow> u8 list" where
  "fputlong i = fputc (ucast i) @ fputc (ucast (drop_bit 8 i)) @
                fputc (ucast (drop_bit 16 i)) @ fputc (ucast (drop_bit 24 i))"

text \<open>A C string is the list of its bytes before the terminating NUL.\<close>

definition fputstring :: "cstring \<Rightarrow> u8 list" where
  "fputstring s = s @ [0]"

subsection \<open>Constants of headers outside this file\<close>

text \<open>
  The opcodes of \<^verbatim>\<open>linkdefs.h\<close> and the enumeration values of \<^verbatim>\<open>fstack.h\<close> and
  \<^verbatim>\<open>linkdefs.h\<close> are not defined in \<^verbatim>\<open>output.c\<close>: they are parameters of the model.
  The four opcodes are labels of one \<^verbatim>\<open>switch\<close>, hence pairwise distinct.
  \<^verbatim>\<open>sect_HasData\<close> (\<^verbatim>\<open>asm/section.h\<close>) tells from the type of a section whether it
  carries data.
\<close>

record Constants =
  RPN_CONST :: u8
  RPN_SYM :: u8
  RPN_BANK_SYM :: u8
  RPN_BANK_SECT :: u8
  NODE_REPT :: u8
  SYMTYPE_LOCAL :: u8
  SYMTYPE_IMPORT :: u8
  SYMTYPE_EXPORT :: u8
  sect_HasData :: "u8 \<Rightarrow> bool"

definition switch_labels_distinct :: "Constants \<Rightarrow> bool" where
  "switch_labels_distinct k =
     distinct [RPN_CONST k, RPN_SYM k, RPN_BANK_SYM k, RPN_BANK_SECT k]"

subsection \<open>File stack nodes\<close>

text \<open>
  \<^verbatim>\<open>struct FileStackNode\<close> with the payloads of \<^verbatim>\<open>FileStackNamedNode\<close> (\<open>n_name\<close>)
  and \<^verbatim>\<open>FileStackReptNode\<close> (\<open>n_reptDepth\<close>, \<open>n_iters\<close>); the C code casts according to
  the \<open>type\<close> field.  The ID \<^verbatim>\<open>-1\<close> means "not registered".
\<close>

record FileStackNode =
  n_parent :: "addr option"
  n_lineNo :: u32
  n_next :: "addr option"
  n_ID :: u32
  n_type :: u8
  n_name :: cstring
  n_reptDepth :: u32
  n_iters :: "u32 list"

text \<open>
  The registry part of the module state: the store of nodes and the static variable
  \<^verbatim>\<open>fileStackNodes\<close>, head of the flat list.
\<close>

record Registry =
  nodes :: "addr \<Rightarrow> FileStackNode"
  fileStackNodes :: "addr option"

definition getNbFileStackNodes :: "'a Registry_scheme \<Rightarrow> u32" where
  "getNbFileStackNodes s =
     (case fileStackNodes s of Some h \<Rightarrow> n_ID (nodes s h) + 1 | None \<Rightarrow> 0)"

text \<open>One iteration of the loop body of \<^verbatim>\<open>out_RegisterNode\<close>, up to the assignment
  of \<^verbatim>\<open>fileStackNodes\<close>.\<close>

definition linkNode :: "'a Registry_scheme \<Rightarrow> addr \<Rightarrow> 'a Registry_scheme" where
  "linkNode s node =
     s\<lparr>nodes := (nodes s)(node := (nodes s node)\<lparr>n_next := fileStackNodes s,
                                                  n_ID := getNbFileStackNodes s\<rparr>),
       fileStackNodes := Some node\<rparr>"

function out_RegisterNode :: "'a Registry_scheme \<Rightarrow> addr \<Rightarrow> failure + 'a Registry_scheme" where
  "out_RegisterNode s node =
     (if n_ID (nodes s node) = -1 then
        if getNbFileStackNodes s = -1 then Inl TooManyFileStackNodes
        else (case n_parent (nodes s node) of
                None \<Rightarrow> Inr (linkNode s node)
              | Some p \<Rightarrow> out_RegisterNode (linkNode s node) p)
      else Inr s)"
  by pat_completeness auto

lemma getNb_linkNode:
  "getNbFileStackNodes (linkNode s node) = getNbFileStackNodes s + 1"
  by (simp add: getNbFileStackNodes_def linkNode_def)

lemma unat_succ_u32: "(c :: u32) \<noteq> -1 \<Longrightarrow> unat (c + 1) = Suc (unat c)"
  by (metis add.commute add_diff_cancel_left' diff_0 unatSuc)

lemma unat_u32_less: "unat (c :: u32) < 4294967296"
  using unsigned_less [of c] by simp

lemma register_measure:
  "(c :: u32) \<noteq> -1 \<Longrightarrow> 4294967296 - unat (c + 1) < (4294967296 :: nat) - unat c"
  using unat_u32_less [of c] by (simp add: unat_succ_u32)

termination out_RegisterNode
  by (relation "measure (\<lambda>(s, node). 2 ^ 32 - unat (getNbFileStackNodes s))")
     (simp_all add: getNb_linkNode register_measure)

declare out_RegisterNode.simps [simp del]

subsection \<open>The flat list and its serialization\<close>

text \<open>
  \<open>flatList h p xs\<close>: following the \<^verbatim>\<open>next\<close> pointers from \<open>p\<close> visits exactly the
  addresses \<open>xs\<close>, in this order, and then reaches \<^verbatim>\<open>NULL\<close>.
\<close>

fun flatList :: "(addr \<Rightarrow> FileStackNode) \<Rightarrow> addr option \<Rightarrow> addr list \<Rightarrow> bool" where
  "flatList h p [] = (p = None)"
| "flatList h p (a # as) = (p = Some a \<and> flatList h (n_next (h a)) as)"

text \<open>The loop \<^verbatim>\<open>for (uint32_t i = reptNode->reptDepth; i--; )\<close> of
  \<^verbatim>\<open>writeFileStackNode\<close>.\<close>

fun writeIters :: "u32 list \<Rightarrow> nat \<Rightarrow> u8 list" where
  "writeIters its 0 = []"
| "writeIters its (Suc i) = fputlong (its ! i) @ writeIters its i"

definition writeFileStackNode :: "Constants \<Rightarrow> (addr \<Rightarrow> FileStackNode) \<Rightarrow> FileStackNode \<Rightarrow> u8 list" where
  "writeFileStackNode k h node =
     fputlong (case n_parent node of Some p \<Rightarrow> n_ID (h p) | None \<Rightarrow> -1) @
     fputlong (n_lineNo node) @
     fputc (n_type node) @
     (if n_type node \<noteq> NODE_REPT k then fputstring (n_name node)
      else fputlong (n_reptDepth node) @ writeIters (n_iters node) (unat (n_reptDepth node)))"

text \<open>
  The loop over the flat list in \<^verbatim>\<open>out_WriteObject\<close>.  It follows \<^verbatim>\<open>next\<close> pointers of
  an arbitrary store, so it need not return: \<open>None\<close> is "does not return".
\<close>

partial_function (option) writeFileStackNodes ::
  "Constants \<Rightarrow> (addr \<Rightarrow> FileStackNode) \<Rightarrow> addr option \<Rightarrow> u8 list \<Rightarrow> (failure + u8 list) option" where
  "writeFileStackNodes k h node f =
     (case node of
        None \<Rightarrow> Some (Inr f)
      | Some a \<Rightarrow>
          if (case n_next (h a) of None \<Rightarrow> False
              | Some b \<Rightarrow> n_ID (h b) \<noteq> n_ID (h a) - 1)
          then Some (Inl FstackNodeOrder)
          else writeFileStackNodes k h (n_next (h a)) (f @ writeFileStackNode k h (h a)))"

text \<open>A sequence of registrations, stopping at the first fatal error.\<close>

fun registerAll :: "'a Registry_scheme \<Rightarrow> addr list \<Rightarrow> failure + 'a Registry_scheme" where
  "registerAll s [] = Inr s"
| "registerAll s (a # as) =
     (case out_RegisterNode s a of Inl e \<Rightarrow> Inl e | Inr s' \<Rightarrow> registerAll s' as)"

text \<open>
  The invariant of the registry: the flat list \<open>xs\<close> holds exactly the nodes with an ID,
  and their IDs, read from the head, are \<open>length xs - 1, ..., 1, 0\<close>.
\<close>

definition registry_inv :: "'a Registry_scheme \<Rightarrow> addr list \<Rightarrow> bool" where
  "registry_inv s xs \<longleftrightarrow>
     flatList (nodes s) (fileStackNodes s) xs \<and>
     map (\<lambda>a. unat (n_ID (nodes s a))) xs = rev [0..<length xs] \<and>
     (\<forall>a. n_ID (nodes s a) \<noteq> -1 \<longleftrightarrow> a \<in> set xs)"

text \<open>
  \<open>unregChain h a as\<close>: \<open>as\<close> is the node \<open>a\<close> followed by its ancestors, all without
  an ID, up to and including the first one whose parent is missing or has an ID.
\<close>

fun unregChain :: "(addr \<Rightarrow> FileStackNode) \<Rightarrow> addr \<Rightarrow> addr list \<Rightarrow> bool" where
  "unregChain h a [] = False"
| "unregChain h a [x] =
     (x = a \<and> n_ID (h a) = -1 \<and>
      (case n_parent (h a) of None \<Rightarrow> True | Some p \<Rightarrow> n_ID (h p) \<noteq> -1))"
| "unregChain h a (x # y # ys) =
     (x = a \<and> n_ID (h a) = -1 \<and> n_parent (h a) = Some y \<and> unregChain h y (y # ys))"

text \<open>Some adjacent pair of the list \<open>xs\<close> has IDs that are not one apart.\<close>

fun idGap :: "(addr \<Rightarrow> FileStackNode) \<Rightarrow> addr list \<Rightarrow> bool" where
  "idGap h (a # b # bs) = (n_ID (h b) \<noteq> n_ID (h a) - 1 \<or> idGap h (b # bs))"
| "idGap h _ = False"

text \<open>
  The source comment in \<^verbatim>\<open>writeFileStackNode\<close> reads "Iters are stored by decreasing
  depth": the stored sequence \<^verbatim>\<open>iters[0], ..., iters[reptDepth - 1]\<close> runs from the deepest
  level to the shallowest.
\<close>

definition itersDeepestFirst :: "FileStackNode \<Rightarrow> u32 list" where
  "itersDeepestFirst node = take (unat (n_reptDepth node)) (n_iters node)"

subsection \<open>Symbols, expressions, patches, assertions and sections\<close>

text \<open>
  \<^verbatim>\<open>struct Symbol\<close> (\<^verbatim>\<open>asm/symbol.h\<close>).  The fields \<open>sym_name\<close> to \<open>sym_value\<close> are
  read or written by \<^verbatim>\<open>output.c\<close>.

  Modelled from the spec: the inline functions \<^verbatim>\<open>sym_IsDefined\<close>, \<^verbatim>\<open>sym_IsPC\<close>,
  \<^verbatim>\<open>sym_IsConstant\<close>, \<^verbatim>\<open>sym_GetConstantValue\<close> and \<^verbatim>\<open>sym_GetSection\<close> are missing from the
  sources at hand; the spec describes the symbol table as "a symbol-table lookup by name
  returning a symbol handle, whether it is presently a known constant, and its constant
  value".  Their results are the fields \<open>sym_isDefined\<close> to \<open>sym_section\<close>.
\<close>

record Symbol =
  sym_name :: cstring
  sym_isExported :: bool
  sym_ID :: u32
  sym_src :: addr
  sym_fileLine :: u32
  sym_value :: u32
  sym_isDefined :: bool
  sym_isPC :: bool
  sym_isConstant :: bool
  sym_constantValue :: u32
  sym_section :: "addr option"

text \<open>The fields of \<^verbatim>\<open>struct Expression\<close> (\<^verbatim>\<open>asm/rpn.h\<close>) that \<^verbatim>\<open>allocpatch\<close> reads;
  \<open>e_tRPN\<close> is the whole buffer, of which \<open>e_nRPNLength\<close> bytes are in use.\<close>

record Expression =
  e_nVal :: u32
  e_isKnown :: bool
  e_tRPN :: "u8 list"
  e_nRPNLength :: u32
  e_nRPNPatchSize :: u32

record Patch =
  p_src :: addr
  p_lineNo :: u32
  p_nOffset :: u32
  p_pcSection :: "addr option"
  p_pcOffset :: u32
  p_type :: u8
  p_nRPNSize :: u32
  p_pRPN :: "u8 list"

text \<open>\<^verbatim>\<open>struct Assertion\<close>; its field \<^verbatim>\<open>section\<close> is never accessed in this file.\<close>

record Assertion =
  a_patch :: Patch
  a_message :: cstring

datatype SectionModifier = SECTION_NORMAL | SECTION_UNION | SECTION_FRAGMENT

record Section =
  sect_name :: cstring
  sect_type :: u8
  sect_modifier :: SectionModifier
  sect_size :: u32
  sect_org :: u32
  sect_bank :: u32
  sect_align :: u8
  sect_alignOfs :: u32
  sect_data :: "u8 list"
  sect_patches :: "Patch list"

text \<open>
  The module state: the registry, the store of symbols with the hash map of
  \<^verbatim>\<open>symbol.c\<close> (\<open>symbolTable\<close>, read by \<^verbatim>\<open>sym_FindSymbol\<close> and \<^verbatim>\<open>sym_ForEach\<close>), the list
  \<^verbatim>\<open>objectSymbols\<close> (built through \<^verbatim>\<open>objectSymbolsTail\<close>, so by appending) with its length
  \<^verbatim>\<open>nbSymbols\<close>, the list \<^verbatim>\<open>assertions\<close>, the store of sections with the section list
  (only read here) and \<^verbatim>\<open>pCurrentSection\<close>.
\<close>

record State = Registry +
  symbols :: "addr \<Rightarrow> Symbol"
  symbolTable :: "(cstring \<times> addr) list"
  objectSymbols :: "addr list"
  nbSymbols :: u32
  assertions :: "Assertion list"
  sections :: "addr \<Rightarrow> Section"
  pSectionList :: "addr list"
  pCurrentSection :: addr

text \<open>
  What a call takes from outside the module: the answers of the front end
  (\<^verbatim>\<open>fstk_GetFileStack\<close>, \<^verbatim>\<open>lexer_GetLineNo\<close>, \<^verbatim>\<open>sect_GetSymbolSection\<close>,
  \<^verbatim>\<open>sect_GetSymbolOffset\<close>) and whether each allocation succeeds.
\<close>

record Env =
  fstk_GetFileStack :: addr
  lexer_GetLineNo :: u32
  sect_GetSymbolSection :: "addr option"
  sect_GetSymbolOffset :: u32
  mallocAssertion :: bool
  mallocPatch :: bool
  mallocRPN :: bool
  strdupMessage :: bool

definition sym_FindSymbol :: "State \<Rightarrow> cstring \<Rightarrow> addr option" where
  "sym_FindSymbol s tzSym = map_of (symbolTable s) tzSym"

subsection \<open>Symbol IDs\<close>

definition registerSymbol :: "State \<Rightarrow> addr \<Rightarrow> failure + State" where
  "registerSymbol s symbol =
     (let s1 = s\<lparr>objectSymbols := objectSymbols s @ [symbol]\<rparr> in
      case out_RegisterNode s1 (sym_src (symbols s1 symbol)) of
        Inl e \<Rightarrow> Inl e
      | Inr s2 \<Rightarrow>
          if nbSymbols s2 = -1 then Inl TooManySymbols
          else Inr (s2\<lparr>symbols := (symbols s2)(symbol := (symbols s2 symbol)\<lparr>sym_ID := nbSymbols s2\<rparr>),
                       nbSymbols := nbSymbols s2 + 1\<rparr>))"

definition getSymbolID :: "State \<Rightarrow> addr \<Rightarrow> failure + (u32 \<times> State)" where
  "getSymbolID s symbol =
     (if sym_ID (symbols s symbol) = -1 \<and> \<not> sym_isPC (symbols s symbol) then
        case registerSymbol s symbol of
          Inl e \<Rightarrow> Inl e
        | Inr s' \<Rightarrow> Inr (sym_ID (symbols s' symbol), s')
      else Inr (sym_ID (symbols s symbol), s))"




subsection \<open>Rewriting RPN expressions\<close>

text \<open>\<^verbatim>\<open>popbyte()\<close>: \<^verbatim>\<open>rpn[offset++]\<close>; a read outside the buffer is \<open>None\<close>.\<close>

definition popbyte :: "u8 list \<Rightarrow> nat \<Rightarrow> (u8 \<times> nat) option" where
  "popbyte rpn offset = (if offset < length rpn then Some (rpn ! offset, offset + 1) else None)"

text \<open>Four times \<^verbatim>\<open>popbyte()\<close>.\<close>

definition popbytes4 :: "u8 list \<Rightarrow> nat \<Rightarrow> (u8 list \<times> nat) option" where
  "popbytes4 rpn offset =
     (if offset + 4 \<le> length rpn then Some (take 4 (drop offset rpn), offset + 4) else None)"

text \<open>\<^verbatim>\<open>popbyte()\<close> up to and including the next NUL: the bytes before the NUL.\<close>

definition popstring :: "u8 list \<Rightarrow> nat \<Rightarrow> (cstring \<times> nat) option" where
  "popstring rpn offset =
     (let str = takeWhile (\<lambda>b. b \<noteq> 0) (drop offset rpn) in
      if offset + length str < length rpn then Some (str, offset + length str + 1) else None)"

text \<open>The four \<^verbatim>\<open>writebyte\<close> calls for a value: \<^verbatim>\<open>value & 0xFF\<close>, \<^verbatim>\<open>value >> 8\<close>,
  \<^verbatim>\<open>value >> 16\<close>, \<^verbatim>\<open>value >> 24\<close>, each converted to \<^verbatim>\<open>uint8_t\<close>.\<close>

definition valueBytes :: "u32 \<Rightarrow> u8 list" where
  "valueBytes v = [ucast (v AND 0xFF), ucast (drop_bit 8 v), ucast (drop_bit 16 v),
                   ucast (drop_bit 24 v)]"

text \<open>
  One iteration of the loop of \<^verbatim>\<open>writerpn\<close>: the bytes it writes, the new offset and the
  new state.  The name buffer \<^verbatim>\<open>tzSym\<close> has 512 bytes, so a name of 512 bytes or more is
  written outside it; \<^verbatim>\<open>sym_FindSymbol\<close> returns \<^verbatim>\<open>NULL\<close> for an unknown name, which
  the code dereferences.
\<close>

definition rpnStep :: "Constants \<Rightarrow> State \<Rightarrow> u8 list \<Rightarrow> nat \<Rightarrow> failure + (u8 list \<times> nat \<times> State)" where
  "rpnStep k s rpn offset =
     (case popbyte rpn offset of
        None \<Rightarrow> Inl InvalidAccess
      | Some (rpndata, o1) \<Rightarrow>
          if rpndata = RPN_CONST k then
            (case popbytes4 rpn o1 of
               None \<Rightarrow> Inl InvalidAccess
             | Some (bs, o2) \<Rightarrow> Inr (RPN_CONST k # bs, o2, s))
          else if rpndata = RPN_SYM k then
            (case popstring rpn o1 of
               None \<Rightarrow> Inl InvalidAccess
             | Some (tzSym, o2) \<Rightarrow>
                 if 512 \<le> length tzSym then Inl InvalidAccess
                 else (case sym_FindSymbol s tzSym of
                         None \<Rightarrow> Inl InvalidAccess
                       | Some symbol \<Rightarrow>
                           if sym_isConstant (symbols s symbol) then
                             Inr (RPN_CONST k # valueBytes (sym_constantValue (symbols s symbol)), o2, s)
                           else (case getSymbolID s symbol of
                                   Inl e \<Rightarrow> Inl e
                                 | Inr (v, s') \<Rightarrow> Inr (RPN_SYM k # valueBytes v, o2, s'))))
          else if rpndata = RPN_BANK_SYM k then
            (case popstring rpn o1 of
               None \<Rightarrow> Inl InvalidAccess
             | Some (tzSym, o2) \<Rightarrow>
                 if 512 \<le> length tzSym then Inl InvalidAccess
                 else (case sym_FindSymbol s tzSym of
                         None \<Rightarrow> Inl InvalidAccess
                       | Some symbol \<Rightarrow>
                           (case getSymbolID s symbol of
                              Inl e \<Rightarrow> Inl e
                            | Inr (v, s') \<Rightarrow> Inr (RPN_BANK_SYM k # valueBytes v, o2, s'))))
          else if rpndata = RPN_BANK_SECT k then
            (case popstring rpn o1 of
               None \<Rightarrow> Inl InvalidAccess
             | Some (str, o2) \<Rightarrow> Inr (RPN_BANK_SECT k # str @ [0], o2, s))
          else Inr ([rpndata], o1, s))"

lemma popstring_advances: "popstring rpn offset = Some (str, o2) \<Longrightarrow> offset < o2"
  by (auto simp: popstring_def Let_def split: if_splits)

lemma rpnStep_advances: "rpnStep k s rpn offset = Inr (bs, offset', s') \<Longrightarrow> offset < offset'"
  by (auto simp: rpnStep_def popbyte_def popbytes4_def
      split: option.splits if_splits sum.splits prod.splits dest!: popstring_advances)

text \<open>
  \<^verbatim>\<open>writerpn\<close>: \<open>rpnexpr\<close> holds the bytes written so far (\<^verbatim>\<open>*rpnptr\<close> is its length).
\<close>

function writerpn ::
  "Constants \<Rightarrow> State \<Rightarrow> u8 list \<Rightarrow> u8 list \<Rightarrow> nat \<Rightarrow> nat \<Rightarrow> failure + (u8 list \<times> State)" where
  "writerpn k s rpnexpr rpn rpnlen offset =
     (if offset < rpnlen then
        (case rpnStep k s rpn offset of
           Inl e \<Rightarrow> Inl e
         | Inr (bs, offset', s') \<Rightarrow> writerpn k s' (rpnexpr @ bs) rpn rpnlen offset')
      else Inr (rpnexpr, s))"
  by pat_completeness auto

termination writerpn
  by (relation "measure (\<lambda>(k, s, rpnexpr, rpn, rpnlen, offset). rpnlen - offset)")
     (auto dest!: rpnStep_advances)

declare writerpn.simps [simp del]

subsection \<open>Patches and assertions\<close>

text \<open>
  \<^verbatim>\<open>allocpatch\<close>.  The buffer \<^verbatim>\<open>pRPN\<close> has \<open>rpnSize\<close> bytes: when \<^verbatim>\<open>writerpn\<close> writes
  more, it writes outside the buffer; when it writes fewer, the final \<^verbatim>\<open>assert\<close> fails.
\<close>

definition allocpatch ::
  "Constants \<Rightarrow> Env \<Rightarrow> State \<Rightarrow> u32 \<Rightarrow> Expression \<Rightarrow> u32 \<Rightarrow> failure + (Patch \<times> State)" where
  "allocpatch k env s type expr ofs =
     (let rpnSize = (if e_isKnown expr then 5 else e_nRPNPatchSize expr);
          node = fstk_GetFileStack env
      in
      if \<not> mallocPatch env then Inl NoMemoryForPatch
      else if \<not> mallocRPN env then Inl NoMemoryForRPN
      else
        (case out_RegisterNode s node of
           Inl e \<Rightarrow> Inl e
         | Inr s1 \<Rightarrow>
             let patch = \<lparr>p_src = node, p_lineNo = lexer_GetLineNo env, p_nOffset = ofs,
                          p_pcSection = sect_GetSymbolSection env,
                          p_pcOffset = sect_GetSymbolOffset env, p_type = ucast type,
                          p_nRPNSize = rpnSize, p_pRPN = []\<rparr>
             in
             if e_isKnown expr then
               Inr (patch\<lparr>p_pRPN := [RPN_CONST k, ucast (e_nVal expr AND 0xFF),
                                      ucast (drop_bit 8 (e_nVal expr)),
                                      ucast (drop_bit 16 (e_nVal expr)),
                                      ucast (drop_bit 24 (e_nVal expr))]\<rparr>, s1)
             else
               (case writerpn k s1 [] (e_tRPN expr) (unat (e_nRPNLength expr)) 0 of
                  Inl e \<Rightarrow> Inl e
                | Inr (rpnexpr, s2) \<Rightarrow>
                    if unat rpnSize < length rpnexpr then Inl InvalidAccess
                    else if length rpnexpr \<noteq> unat rpnSize then Inl AssertionFailed
                    else Inr (patch\<lparr>p_pRPN := rpnexpr\<rparr>, s2))))"

definition out_CreatePatch ::
  "Constants \<Rightarrow> Env \<Rightarrow> State \<Rightarrow> u32 \<Rightarrow> Expression \<Rightarrow> u32 \<Rightarrow> failure + State" where
  "out_CreatePatch k env s type expr ofs =
     (case allocpatch k env s type expr ofs of
        Inl e \<Rightarrow> Inl e
      | Inr (patch, s') \<Rightarrow>
          Inr (s'\<lparr>sections := (sections s')(pCurrentSection s' :=
                   (sections s' (pCurrentSection s'))
                     \<lparr>sect_patches := patch # sect_patches (sections s' (pCurrentSection s'))\<rparr>)\<rparr>))"

text \<open>\<^verbatim>\<open>out_CreateAssert\<close> returns a \<^verbatim>\<open>bool\<close>; a fatal error inside \<^verbatim>\<open>allocpatch\<close> still
  terminates the program.\<close>

definition out_CreateAssert ::
  "Constants \<Rightarrow> Env \<Rightarrow> State \<Rightarrow> u32 \<Rightarrow> Expression \<Rightarrow> cstring \<Rightarrow> u32 \<Rightarrow> failure + (bool \<times> State)" where
  "out_CreateAssert k env s type expr message ofs =
     (if \<not> mallocAssertion env then Inr (False, s)
      else
        (case allocpatch k env s type expr ofs of
           Inl e \<Rightarrow> Inl e
         | Inr (patch, s') \<Rightarrow>
             if \<not> strdupMessage env then Inr (False, s')
             else Inr (True, s'\<lparr>assertions :=
                                  \<lparr>a_patch = patch, a_message = message\<rparr> # assertions s'\<rparr>)))"

subsection \<open>Writing patches and sections\<close>

text \<open>The loop of \<^verbatim>\<open>countpatches\<close>, with its 32-bit counter.\<close>

fun countpatches_loop :: "Patch list \<Rightarrow> u32 \<Rightarrow> u32" where
  "countpatches_loop [] r = r"
| "countpatches_loop (patch # rest) r = countpatches_loop rest (r + 1)"

definition countpatches :: "Section \<Rightarrow> u32" where
  "countpatches sect = countpatches_loop (sect_patches sect) 0"

fun getsectid_loop :: "addr list \<Rightarrow> addr \<Rightarrow> u32 \<Rightarrow> failure + u32" where
  "getsectid_loop [] sect ID = Inl UnknownSection"
| "getsectid_loop (sec # rest) sect ID =
     (if sec = sect then Inr ID else getsectid_loop rest sect (ID + 1))"

definition getsectid :: "State \<Rightarrow> addr \<Rightarrow> failure + u32" where
  "getsectid s sect = getsectid_loop (pSectionList s) sect 0"

definition getSectIDIfAny :: "State \<Rightarrow> addr option \<Rightarrow> failure + u32" where
  "getSectIDIfAny s sect = (case sect of Some a \<Rightarrow> getsectid s a | None \<Rightarrow> Inr (-1))"

definition writepatch :: "State \<Rightarrow> Patch \<Rightarrow> failure + u8 list" where
  "writepatch s patch =
     (if n_ID (nodes s (p_src patch)) = -1 then Inl AssertionFailed
      else
        (case getSectIDIfAny s (p_pcSection patch) of
           Inl e \<Rightarrow> Inl e
         | Inr sectID \<Rightarrow>
             Inr (fputlong (n_ID (nodes s (p_src patch))) @
                  fputlong (p_lineNo patch) @
                  fputlong (p_nOffset patch) @
                  fputlong sectID @
                  fputlong (p_pcOffset patch) @
                  fputc (p_type patch) @
                  fputlong (p_nRPNSize patch) @
                  take (unat (p_nRPNSize patch)) (p_pRPN patch))))"

text \<open>The loop over the patch list in \<^verbatim>\<open>writesection\<close>; \<open>f\<close> is what the file holds.\<close>

fun writepatches :: "State \<Rightarrow> Patch list \<Rightarrow> u8 list \<Rightarrow> failure + u8 list" where
  "writepatches s [] f = Inr f"
| "writepatches s (patch # rest) f =
     (case writepatch s patch of
        Inl e \<Rightarrow> Inl e
      | Inr bytes \<Rightarrow> writepatches s rest (f @ bytes))"

text \<open>The bytes of a section record before its data.\<close>

definition sectionHeader :: "Section \<Rightarrow> u8 list" where
  "sectionHeader sect =
     fputstring (sect_name sect) @
     fputlong (sect_size sect) @
     fputc (sect_type sect OR
            push_bit 7 (if sect_modifier sect = SECTION_UNION then 1 else 0) OR
            push_bit 6 (if sect_modifier sect = SECTION_FRAGMENT then 1 else 0)) @
     fputlong (sect_org sect) @
     fputlong (sect_bank sect) @
     fputc (sect_align sect) @
     fputlong (sect_alignOfs sect)"

definition writesection :: "Constants \<Rightarrow> State \<Rightarrow> Section \<Rightarrow> failure + u8 list" where
  "writesection k s sect =
     (if sect_HasData k (sect_type sect) then
        writepatches s (sect_patches sect)
          (sectionHeader sect @ take (unat (sect_size sect)) (sect_data sect) @
           fputlong (countpatches sect))
      else Inr (sectionHeader sect))"

section \<open>Notions for stating the properties\<close>

text \<open>The value that four bytes denote in little-endian order (least significant first).\<close>

definition le32 :: "u8 list \<Rightarrow> u32" where
  "le32 bs = ucast (bs ! 0) OR push_bit 8 (ucast (bs ! 1)) OR push_bit 16 (ucast (bs ! 2)) OR
             push_bit 24 (ucast (bs ! 3))"

text \<open>What rewriting and registration never change.\<close>

definition sameFrontEnd :: "State \<Rightarrow> State \<Rightarrow> bool" where
  "sameFrontEnd s s' \<longleftrightarrow>
     symbolTable s' = symbolTable s \<and> assertions s' = assertions s \<and>
     sections s' = sections s \<and> pSectionList s' = pSectionList s \<and>
     pCurrentSection s' = pCurrentSection s"

text \<open>A sequence of calls of \<^verbatim>\<open>out_CreatePatch\<close>, each with its environment, type,
  expression and offset, stopping at the first fatal error.\<close>

fun createPatches ::
  "Constants \<Rightarrow> State \<Rightarrow> (Env \<times> u32 \<times> Expression \<times> u32) list \<Rightarrow> failure + State" where
  "createPatches k s [] = Inr s"
| "createPatches k s ((env, type, expr, ofs) # rest) =
     (case out_CreatePatch k env s type expr ofs of
        Inl e \<Rightarrow> Inl e
      | Inr s' \<Rightarrow> createPatches k s' rest)"












text \<open>The bookkeeping of symbol IDs is consistent: the symbols of the output list are
  distinct, they are exactly the symbols with an ID, and the ID is the position.\<close>

definition symbolsConsistent :: "State \<Rightarrow> bool" where
  "symbolsConsistent s \<longleftrightarrow>
     distinct (objectSymbols s) \<and>
     (\<forall>a. sym_ID (symbols s a) \<noteq> -1 \<longleftrightarrow> a \<in> set (objectSymbols s)) \<and>
     unat (nbSymbols s) = length (objectSymbols s) \<and>
     (\<forall>i. i < length (objectSymbols s) \<longrightarrow>
          sym_ID (symbols s (objectSymbols s ! i)) = of_nat i)"

text \<open>Only the ID of a symbol has changed, and the symbol table has not.\<close>

definition sameSymbolFlags :: "State \<Rightarrow> State \<Rightarrow> bool" where
  "sameSymbolFlags s s' \<longleftrightarrow>
     symbolTable s' = symbolTable s \<and>
     (\<forall>a. symbols s' a = (symbols s a)\<lparr>sym_ID := sym_ID (symbols s' a)\<rparr>)"

text \<open>From \<open>s\<close> to \<open>s'\<close> exactly the symbols \<open>A\<close> were added to the output list.\<close>

definition registers :: "State \<Rightarrow> State \<Rightarrow> addr set \<Rightarrow> bool" where
  "registers s s' A \<longleftrightarrow>
     sameSymbolFlags s s' \<and>
     (symbolsConsistent s \<longrightarrow>
        symbolsConsistent s' \<and>
        (\<exists>new. objectSymbols s' = objectSymbols s @ new \<and> set new = A - set (objectSymbols s)))"




section \<open>Example data\<close>

definition exampleNode :: "addr option \<Rightarrow> FileStackNode" where
  "exampleNode p = \<lparr>n_parent = p, n_lineNo = 1, n_next = None, n_ID = -1, n_type = 1,
     n_name = [], n_reptDepth = 0, n_iters = []\<rparr>"

definition exampleRegistry :: Registry where
  "exampleRegistry = \<lparr>nodes = (\<lambda>a. exampleNode (if a = 0 then None else Some (a - 1))),
     fileStackNodes = None\<rparr>"

text \<open>Example values for the constants of the headers.\<close>

definition exampleConstants :: Constants where
  "exampleConstants = \<lparr>RPN_CONST = 0x80, RPN_SYM = 0x81, RPN_BANK_SYM = 0x50,
     RPN_BANK_SECT = 0x51, NODE_REPT = 0, SYMTYPE_LOCAL = 0, SYMTYPE_IMPORT = 1,
     SYMTYPE_EXPORT = 2, sect_HasData = (\<lambda>t. t = 2 \<or> t = 3)\<rparr>"

text \<open>A store whose list \<open>1, 0\<close> carries the IDs 5 and 3.\<close>

definition gapNodes :: "addr \<Rightarrow> FileStackNode" where
  "gapNodes a = (exampleNode None)\<lparr>n_next := (if a = 1 then Some 0 else None),
                                    n_ID := (if a = 1 then 5 else 3)\<rparr>"

definition exampleRept :: FileStackNode where
  "exampleRept = \<lparr>n_parent = None, n_lineNo = 5, n_next = None, n_ID = 0, n_type = 0,
     n_name = [], n_reptDepth = 2, n_iters = [3, 7]\<rparr>"

text \<open>Example symbols: the PC symbol, a constant, a label, an exported label and a label
  that nothing uses.\<close>

definition exampleSymbol :: "cstring \<Rightarrow> Symbol" where
  "exampleSymbol name = \<lparr>sym_name = name, sym_isExported = False, sym_ID = -1, sym_src = 0,
     sym_fileLine = 1, sym_value = 0, sym_isDefined = True, sym_isPC = False,
     sym_isConstant = False, sym_constantValue = 0, sym_section = Some 0\<rparr>"

definition exampleSymbols :: "addr \<Rightarrow> Symbol" where
  "exampleSymbols a =
     (if a = 0 then (exampleSymbol [0x40])\<lparr>sym_isPC := True\<rparr>
      else if a = 1 then (exampleSymbol [0x4B])\<lparr>sym_isConstant := True, sym_constantValue := 42,
                                                 sym_section := None\<rparr>
      else if a = 2 then exampleSymbol [0x4C]
      else if a = 3 then (exampleSymbol [0x45])\<lparr>sym_isExported := True\<rparr>
      else exampleSymbol [0x55])"

definition exampleSection :: Section where
  "exampleSection = \<lparr>sect_name = [0x53], sect_type = 3, sect_modifier = SECTION_NORMAL,
     sect_size = 2, sect_org = -1, sect_bank = -1, sect_align = 0, sect_alignOfs = 0,
     sect_data = [0, 0], sect_patches = []\<rparr>"

definition exampleState :: State where
  "exampleState = \<lparr>nodes = (\<lambda>a. exampleNode (if a = 0 then None else Some (a - 1))),
     fileStackNodes = None, symbols = exampleSymbols,
     symbolTable = [([0x40], 0), ([0x4B], 1), ([0x4C], 2), ([0x45], 3), ([0x55], 4)],
     objectSymbols = [], nbSymbols = 0, assertions = [], sections = (\<lambda>a. exampleSection),
     pSectionList = [0], pCurrentSection = 0\<rparr>"

definition exampleEnv :: Env where
  "exampleEnv = \<lparr>fstk_GetFileStack = 2, lexer_GetLineNo = 7, sect_GetSymbolSection = Some 0,
     sect_GetSymbolOffset = 0, mallocAssertion = True, mallocPatch = True, mallocRPN = True,
     strdupMessage = True\<rparr>"

definition knownExpr :: Expression where
  "knownExpr = \<lparr>e_nVal = 42, e_isKnown = True, e_tRPN = [], e_nRPNLength = 0,
     e_nRPNPatchSize = 0\<rparr>"

definition examplePatch :: "u32 \<Rightarrow> Patch" where
  "examplePatch ofs = \<lparr>p_src = 0, p_lineNo = 7, p_nOffset = ofs, p_pcSection = None,
     p_pcOffset = 0, p_type = 1, p_nRPNSize = 5, p_pRPN = [0x80, 42, 0, 0, 0]\<rparr>"

definition examplePatchRecord :: "u32 \<Rightarrow> u8 list" where
  "examplePatchRecord ofs = fputlong 0 @ fputlong 7 @ fputlong ofs @ fputlong (-1) @ fputlong 0 @
     [1] @ fputlong 5 @ [0x80, 42, 0, 0, 0]"









section \<open>Properties of the registry\<close>

lemma flatList_upd: "a \<notin> set xs \<Longrightarrow> flatList (h(a := v)) p xs = flatList h p xs"
  by (induction xs arbitrary: p) auto

lemma inv_count:
  assumes "registry_inv s xs"
  shows "unat (getNbFileStackNodes s) = length xs"
proof (cases xs)
  case Nil
  with assms show ?thesis by (simp add: registry_inv_def getNbFileStackNodes_def)
next
  case (Cons a as)
  from assms Cons have h: "fileStackNodes s = Some a"
    and id: "unat (n_ID (nodes s a)) = length as"
    and ne: "n_ID (nodes s a) \<noteq> -1"
    by (auto simp: registry_inv_def)
  show ?thesis using h id ne Cons by (simp add: getNbFileStackNodes_def unat_succ_u32)
qed

lemma inv_linkNode:
  assumes inv: "registry_inv s xs" and un: "n_ID (nodes s node) = -1"
    and room: "getNbFileStackNodes s \<noteq> -1"
  shows "registry_inv (linkNode s node) (node # xs)"
proof -
  from inv un have notin: "node \<notin> set xs" by (auto simp: registry_inv_def)
  have cnt: "unat (getNbFileStackNodes s) = length xs" by (rule inv_count [OF inv])
  have ids: "map (\<lambda>a. unat (n_ID (nodes (linkNode s node) a))) xs
           = map (\<lambda>a. unat (n_ID (nodes s a))) xs"
    using notin by (auto simp: linkNode_def)
  show ?thesis
    unfolding registry_inv_def
  proof (intro conjI allI)
    show "flatList (nodes (linkNode s node)) (fileStackNodes (linkNode s node)) (node # xs)"
      using inv notin by (simp add: linkNode_def registry_inv_def flatList_upd)
    show "map (\<lambda>a. unat (n_ID (nodes (linkNode s node) a))) (node # xs)
          = rev [0..<length (node # xs)]"
      using inv ids cnt by (simp add: registry_inv_def) (simp add: linkNode_def)
    show "(n_ID (nodes (linkNode s node) a) \<noteq> - 1) = (a \<in> set (node # xs))" for a
      using inv room by (auto simp: linkNode_def registry_inv_def)
  qed
qed

lemma inv_register:
  "registry_inv s xs \<Longrightarrow> out_RegisterNode s a = Inr s' \<Longrightarrow> \<exists>ys. registry_inv s' (ys @ xs)"
proof (induction s a arbitrary: xs rule: out_RegisterNode.induct)
  case (1 s node)
  show ?case
  proof (cases "n_ID (nodes s node) = -1")
    case False
    with 1 show ?thesis by (auto simp: out_RegisterNode.simps intro: exI [of _ "[]"])
  next
    case True
    with "1.prems" have room: "getNbFileStackNodes s \<noteq> -1"
      by (auto simp: out_RegisterNode.simps split: if_splits)
    have inv': "registry_inv (linkNode s node) (node # xs)"
      by (rule inv_linkNode [OF "1.prems"(1) True room])
    show ?thesis
    proof (cases "n_parent (nodes s node)")
      case None
      with True room "1.prems" have "s' = linkNode s node"
        by (simp add: out_RegisterNode.simps)
      with inv' show ?thesis by (auto intro: exI [of _ "[node]"])
    next
      case (Some p)
      with True room "1.prems" have "out_RegisterNode (linkNode s node) p = Inr s'"
        by (simp add: out_RegisterNode.simps)
      from "1.IH" [OF True room Some inv' this]
      obtain ys where "registry_inv s' (ys @ node # xs)" by blast
      then show ?thesis by (auto intro: exI [of _ "ys @ [node]"])
    qed
  qed
qed

lemma inv_registerAll:
  "registry_inv s xs \<Longrightarrow> registerAll s as = Inr s' \<Longrightarrow> \<exists>ys. registry_inv s' (ys @ xs)"
proof (induction as arbitrary: s xs)
  case Nil
  then show ?case by (auto intro: exI [of _ "[]"])
next
  case (Cons a as)
  from Cons.prems(2) obtain s1 where r1: "out_RegisterNode s a = Inr s1"
    and r2: "registerAll s1 as = Inr s'"
    by (auto split: sum.splits)
  from inv_register [OF Cons.prems(1) r1] obtain ys where "registry_inv s1 (ys @ xs)" ..
  from Cons.IH [OF this r2] obtain zs where "registry_inv s' (zs @ ys @ xs)" ..
  then show ?case by (auto intro: exI [of _ "zs @ ys"])
qed

lemma inv_initial: "fileStackNodes s = None \<Longrightarrow> \<forall>a. n_ID (nodes s a) = -1 \<Longrightarrow> registry_inv s []"
  by (simp add: registry_inv_def)

lemma inv_distinct: "registry_inv s xs \<Longrightarrow> distinct xs"
proof -
  assume "registry_inv s xs"
  then have "distinct (map (\<lambda>a. unat (n_ID (nodes s a))) xs)"
    by (simp add: registry_inv_def)
  then show ?thesis by (simp add: distinct_map)
qed

lemma word_pred_eq: "unat (x :: u32) = Suc (unat y) \<Longrightarrow> y = x - 1"
proof -
  assume a: "unat x = Suc (unat y)"
  have "y \<noteq> -1"
  proof
    assume "y = -1"
    moreover have "unat (-1 :: u32) = 4294967295"
      by (simp add: unsigned_minus_1_eq_mask mask_eq_exp_minus_1)
    ultimately have "unat x = 4294967296" using a by simp
    with unat_u32_less [of x] show False by simp
  qed
  then have "unat (y + 1) = unat x" using a by (simp add: unat_succ_u32)
  then have "y + 1 = x" by (simp add: word_unat_eq_iff)
  then show ?thesis by auto
qed

lemma inv_adjacent:
  assumes "registry_inv s xs" "Suc i < length xs"
  shows "n_ID (nodes s (xs ! Suc i)) = n_ID (nodes s (xs ! i)) - 1"
proof -
  let ?f = "\<lambda>a. unat (n_ID (nodes s a))"
  from assms have m: "map ?f xs = rev [0..<length xs]" by (simp add: registry_inv_def)
  have "?f (xs ! i) = map ?f xs ! i" using assms by simp
  also have "\<dots> = length xs - Suc i" using assms by (simp add: m rev_nth)
  finally have a: "?f (xs ! i) = length xs - Suc i" .
  have "?f (xs ! Suc i) = map ?f xs ! Suc i" using assms by simp
  also have "\<dots> = length xs - Suc (Suc i)" using assms by (simp add: m rev_nth)
  finally have b: "?f (xs ! Suc i) = length xs - Suc (Suc i)" .
  from a b assms have "?f (xs ! i) = Suc (?f (xs ! Suc i))" by simp
  then show ?thesis by (rule word_pred_eq)
qed

text \<open>
  C2. Starting with no registered node, after any sequence of registrations that does not
  end in the fatal error: the flat list holds exactly the nodes with an ID, without
  repetition; their IDs are exactly the numbers below the count; read from the head the IDs
  are \<open>count - 1, ..., 1, 0\<close>, each one less than the one before; and the count query
  returns the ID of the head plus one, or 0 when the list is empty.
\<close>

theorem registry_contiguous:
  assumes "fileStackNodes s0 = None" and "\<forall>a. n_ID (nodes s0 a) = -1"
    and "registerAll s0 as = Inr s"
  shows "\<exists>xs. flatList (nodes s) (fileStackNodes s) xs \<and> distinct xs \<and>
           set xs = {a. n_ID (nodes s a) \<noteq> -1} \<and>
           (\<lambda>a. unat (n_ID (nodes s a))) ` set xs = {0..<unat (getNbFileStackNodes s)} \<and>
           map (\<lambda>a. unat (n_ID (nodes s a))) xs = rev [0..<unat (getNbFileStackNodes s)] \<and>
           (\<forall>i. Suc i < length xs \<longrightarrow>
                n_ID (nodes s (xs ! Suc i)) = n_ID (nodes s (xs ! i)) - 1) \<and>
           getNbFileStackNodes s = (case xs of [] \<Rightarrow> 0 | a # _ \<Rightarrow> n_ID (nodes s a) + 1)"
proof -
  from inv_registerAll [OF inv_initial [OF assms(1,2)] assms(3)]
  obtain xs where inv: "registry_inv s xs" by auto
  have cnt: "unat (getNbFileStackNodes s) = length xs" by (rule inv_count [OF inv])
  from inv have m: "map (\<lambda>a. unat (n_ID (nodes s a))) xs = rev [0..<length xs]"
    by (simp add: registry_inv_def)
  have "(\<lambda>a. unat (n_ID (nodes s a))) ` set xs = set (map (\<lambda>a. unat (n_ID (nodes s a))) xs)"
    by simp
  also have "\<dots> = {0..<length xs}" by (simp only: m) simp
  finally have img: "(\<lambda>a. unat (n_ID (nodes s a))) ` set xs = {0..<length xs}" .
  have hd: "getNbFileStackNodes s = (case xs of [] \<Rightarrow> 0 | a # _ \<Rightarrow> n_ID (nodes s a) + 1)"
    using inv by (cases xs) (auto simp: registry_inv_def getNbFileStackNodes_def)
  show ?thesis
  proof (intro exI [of _ xs] conjI allI impI)
    show "flatList (nodes s) (fileStackNodes s) xs" using inv by (simp add: registry_inv_def)
    show "distinct xs" by (rule inv_distinct [OF inv])
    show "set xs = {a. n_ID (nodes s a) \<noteq> -1}" using inv by (auto simp: registry_inv_def)
    show "(\<lambda>a. unat (n_ID (nodes s a))) ` set xs = {0..<unat (getNbFileStackNodes s)}"
      using img cnt by simp
    show "map (\<lambda>a. unat (n_ID (nodes s a))) xs = rev [0..<unat (getNbFileStackNodes s)]"
      using m cnt by simp
    show "n_ID (nodes s (xs ! Suc i)) = n_ID (nodes s (xs ! i)) - 1" if "Suc i < length xs" for i
      by (rule inv_adjacent [OF inv that])
    show "getNbFileStackNodes s = (case xs of [] \<Rightarrow> 0 | a # _ \<Rightarrow> n_ID (nodes s a) + 1)"
      by (rule hd)
  qed
qed

lemma example_run: "registerAll exampleRegistry [1, 1, 0, 2] = Inr (linkNode (linkNode (linkNode exampleRegistry 1) 0) 2)"
  by (simp add: out_RegisterNode.simps exampleRegistry_def exampleNode_def linkNode_def getNbFileStackNodes_def)

theorem registry_contiguous_witness:
  "fileStackNodes exampleRegistry = None \<and> (\<forall>a. n_ID (nodes exampleRegistry a) = -1) \<and>
   registerAll exampleRegistry [1, 1, 0, 2]
     = Inr (linkNode (linkNode (linkNode exampleRegistry 1) 0) 2) \<and>
   (\<exists>xs. flatList (nodes (linkNode (linkNode (linkNode exampleRegistry 1) 0) 2))
            (fileStackNodes (linkNode (linkNode (linkNode exampleRegistry 1) 0) 2)) xs \<and>
         map (\<lambda>a. unat (n_ID (nodes (linkNode (linkNode (linkNode exampleRegistry 1) 0) 2) a))) xs
           = rev [0..<unat (getNbFileStackNodes (linkNode (linkNode (linkNode exampleRegistry 1) 0) 2))])"
proof -
  have a: "fileStackNodes exampleRegistry = None" by (simp add: exampleRegistry_def)
  have b: "\<forall>a. n_ID (nodes exampleRegistry a) = -1"
    by (simp add: exampleRegistry_def exampleNode_def)
  from registry_contiguous [OF a b example_run] a b example_run show ?thesis by blast
qed

lemma register_keeps:
  "out_RegisterNode s a = Inr s' \<Longrightarrow> n_ID (nodes s b) \<noteq> -1 \<Longrightarrow> nodes s' b = nodes s b"
proof (induction s a rule: out_RegisterNode.induct)
  case (1 s node)
  show ?case
  proof (cases "n_ID (nodes s node) = -1")
    case False
    with "1.prems" show ?thesis by (simp add: out_RegisterNode.simps)
  next
    case True
    with "1.prems" have room: "getNbFileStackNodes s \<noteq> -1"
      by (auto simp: out_RegisterNode.simps split: if_splits)
    from True "1.prems"(2) have ne: "b \<noteq> node" by auto
    then have same: "nodes (linkNode s node) b = nodes s b" by (simp add: linkNode_def)
    show ?thesis
    proof (cases "n_parent (nodes s node)")
      case None
      with True room "1.prems" same show ?thesis by (simp add: out_RegisterNode.simps)
    next
      case (Some p)
      with True room "1.prems" have r: "out_RegisterNode (linkNode s node) p = Inr s'"
        by (simp add: out_RegisterNode.simps)
      from "1.IH" [OF True room Some r] same "1.prems"(2) show ?thesis by simp
    qed
  qed
qed

lemma register_assigns:
  assumes "out_RegisterNode s a = Inr s'"
  shows "n_ID (nodes s' a) \<noteq> -1"
proof (cases "n_ID (nodes s a) = -1")
  case False
  with assms show ?thesis by (simp add: out_RegisterNode.simps)
next
  case True
  with assms have room: "getNbFileStackNodes s \<noteq> -1"
    by (auto simp: out_RegisterNode.simps split: if_splits)
  then have linked: "n_ID (nodes (linkNode s a) a) \<noteq> -1" by (simp add: linkNode_def)
  show ?thesis
  proof (cases "n_parent (nodes s a)")
    case None
    with True room assms linked show ?thesis by (simp add: out_RegisterNode.simps)
  next
    case (Some p)
    with True room assms have "out_RegisterNode (linkNode s a) p = Inr s'"
      by (simp add: out_RegisterNode.simps)
    from register_keeps [OF this linked] linked show ?thesis by simp
  qed
qed

lemma unregChain_head: "unregChain h a as \<Longrightarrow> \<exists>bs. as = a # bs"
  by (cases "(h, a, as)" rule: unregChain.cases) auto

lemma unregChain_unreg: "unregChain h a as \<Longrightarrow> n_ID (h a) = -1"
  by (cases "(h, a, as)" rule: unregChain.cases) auto

lemma register_registered: "n_ID (nodes s a) \<noteq> -1 \<Longrightarrow> out_RegisterNode s a = Inr s"
  by (simp add: out_RegisterNode.simps)

lemma register_one:
  assumes "n_ID (nodes s a) = -1" and "getNbFileStackNodes s \<noteq> -1"
    and "case n_parent (nodes s a) of None \<Rightarrow> True | Some p \<Rightarrow> n_ID (nodes s p) \<noteq> -1"
  shows "out_RegisterNode s a = Inr (linkNode s a)"
proof (cases "n_parent (nodes s a)")
  case None
  with assms show ?thesis by (simp add: out_RegisterNode.simps)
next
  case (Some p)
  with assms have "n_ID (nodes s p) \<noteq> -1" by simp
  with assms(1) have "p \<noteq> a" by auto
  with \<open>n_ID (nodes s p) \<noteq> -1\<close> have "n_ID (nodes (linkNode s a) p) \<noteq> -1"
    by (simp add: linkNode_def)
  then have "out_RegisterNode (linkNode s a) p = Inr (linkNode s a)"
    by (rule register_registered)
  with assms Some show ?thesis by (simp add: out_RegisterNode.simps [of s a])
qed

lemma unregChain_unique: "unregChain h a xs \<Longrightarrow> unregChain h a ys \<Longrightarrow> xs = ys"
proof (induction h a xs arbitrary: ys rule: unregChain.induct)
  case (1 h a)
  then show ?case by simp
next
  case (2 h a x)
  then show ?case
    by (cases "(h, a, ys)" rule: unregChain.cases) (auto split: option.splits dest: unregChain_unreg)
next
  case (3 h a x y zs)
  then show ?case
    by (cases "(h, a, ys)" rule: unregChain.cases) (auto split: option.splits dest: unregChain_unreg)
qed

lemma unregChain_suffix: "unregChain h a (xs @ b # ys) \<Longrightarrow> unregChain h b (b # ys)"
proof (induction xs arbitrary: a)
  case Nil
  then show ?case using unregChain_head by fastforce
next
  case (Cons x xs)
  then show ?case by (cases "xs @ b # ys") auto
qed

lemma unregChain_distinct_hd:
  assumes "unregChain h a (a # bs)"
  shows "a \<notin> set bs"
proof
  assume "a \<in> set bs"
  then obtain us vs where bs: "bs = us @ a # vs" by (auto simp: in_set_conv_decomp)
  with assms have "unregChain h a ((a # us) @ a # vs)" by simp
  then have "unregChain h a (a # vs)" by (rule unregChain_suffix)
  from unregChain_unique [OF this assms] bs show False by simp
qed

lemma unregChain_linked:
  "unregChain h y ys \<Longrightarrow> a \<notin> set ys \<Longrightarrow> n_ID (h a) = -1 \<Longrightarrow> n_parent v = n_parent (h a) \<Longrightarrow>
   unregChain (h(a := v)) y ys"
proof (induction h y ys rule: unregChain.induct)
  case (1 h a)
  then show ?case by simp
next
  case (2 h y x)
  then show ?case by (auto split: option.splits)
next
  case (3 h y x z zs)
  then show ?case by auto
qed

lemma register_chain:
  "unregChain (nodes s) a as \<Longrightarrow> unat (getNbFileStackNodes s) + length as < 2 ^ 32 \<Longrightarrow>
   out_RegisterNode s a = Inr (foldl linkNode s as)"
proof (induction as arbitrary: s a)
  case Nil
  then show ?case by simp
next
  case (Cons x xs)
  from Cons.prems(1) have xa: "x = a" and un: "n_ID (nodes s a) = -1"
    by (cases xs; auto)+
  have room: "getNbFileStackNodes s \<noteq> -1"
  proof
    assume "getNbFileStackNodes s = -1"
    moreover have "unat (-1 :: u32) = 4294967295"
      by (simp add: unsigned_minus_1_eq_mask mask_eq_exp_minus_1)
    ultimately show False using Cons.prems(2) by simp
  qed
  show ?case
  proof (cases xs)
    case Nil
    with Cons.prems(1) xa have
      "case n_parent (nodes s a) of None \<Rightarrow> True | Some p \<Rightarrow> n_ID (nodes s p) \<noteq> -1" by simp
    from register_one [OF un room this] Nil xa show ?thesis by simp
  next
    case (Cons y ys)
    with Cons.prems(1) xa have par: "n_parent (nodes s a) = Some y"
      and rest: "unregChain (nodes s) y (y # ys)" by auto
    from unregChain_distinct_hd Cons.prems(1) xa Cons have notin: "a \<notin> set (y # ys)" by blast
    have "unregChain (nodes (linkNode s a)) y (y # ys)"
      unfolding linkNode_def using unregChain_linked [OF rest notin un] by simp
    moreover have "unat (getNbFileStackNodes (linkNode s a)) + length xs < 2 ^ 32"
      using Cons.prems(2) room by (simp add: getNb_linkNode unat_succ_u32)
    ultimately have "out_RegisterNode (linkNode s a) y = Inr (foldl linkNode (linkNode s a) xs)"
      using Cons.IH Cons by simp
    then show ?thesis using un room par xa by (simp add: out_RegisterNode.simps [of s a])
  qed
qed

lemma foldl_linkNode_other:
  "b \<notin> set as \<Longrightarrow> nodes (foldl linkNode s as) b = nodes s b"
  by (induction as arbitrary: s) (auto simp: linkNode_def)

lemma foldl_linkNode_count:
  "getNbFileStackNodes (foldl linkNode s as) = getNbFileStackNodes s + of_nat (length as)"
  by (induction as arbitrary: s) (auto simp: getNb_linkNode)

lemma foldl_linkNode_ID:
  "distinct as \<Longrightarrow> i < length as \<Longrightarrow>
   n_ID (nodes (foldl linkNode s as) (as ! i)) = getNbFileStackNodes s + of_nat i"
proof (induction as arbitrary: s i)
  case Nil
  then show ?case by simp
next
  case (Cons x xs)
  show ?case
  proof (cases i)
    case 0
    with Cons.prems show ?thesis by (simp add: foldl_linkNode_other) (simp add: linkNode_def)
  next
    case (Suc j)
    with Cons show ?thesis by (simp add: getNb_linkNode)
  qed
qed

lemma foldl_linkNode_next:
  "distinct as \<Longrightarrow> i < length as \<Longrightarrow>
   n_next (nodes (foldl linkNode s as) (as ! i))
     = (if i = 0 then fileStackNodes s else Some (as ! (i - 1)))"
proof (induction as arbitrary: s i)
  case Nil
  then show ?case by simp
next
  case (Cons x xs)
  show ?case
  proof (cases i)
    case 0
    with Cons.prems show ?thesis by (simp add: foldl_linkNode_other) (simp add: linkNode_def)
  next
    case (Suc j)
    with Cons.prems have "distinct xs" "j < length xs" by auto
    from Cons.IH [OF this, of "linkNode s x"] Suc show ?thesis
      by (cases j) (simp_all add: linkNode_def)
  qed
qed

lemma foldl_linkNode_head:
  "as \<noteq> [] \<Longrightarrow> fileStackNodes (foldl linkNode s as) = Some (last as)"
  by (induction as rule: rev_induct) (simp_all add: linkNode_def)

lemma unregChain_distinct: "unregChain h a as \<Longrightarrow> distinct as"
proof (induction h a as rule: unregChain.induct)
  case (3 h a x y ys)
  then show ?case using unregChain_distinct_hd [of h x "y # ys"] by auto
qed auto

text \<open>
  C3. Registration is idempotent: a node that has an ID is left alone, and registering a
  node a second time changes nothing.  A node without ID whose parent has one gets exactly
  one new ID, the next available one, and becomes the head of the flat list.  In general
  the nodes without ID from the node upwards, up to the first whose parent is missing or
  has an ID, are linked in this order, each with the next available ID, and no other node
  changes.
\<close>

theorem register_node_walk:
  "(n_ID (nodes s a) \<noteq> -1 \<longrightarrow> out_RegisterNode s a = Inr s) \<and>
   (out_RegisterNode s a = Inr s' \<longrightarrow> out_RegisterNode s' a = Inr s') \<and>
   (n_ID (nodes s a) = -1 \<and> n_parent (nodes s a) = Some p \<and> n_ID (nodes s p) \<noteq> -1 \<and>
    getNbFileStackNodes s \<noteq> -1 \<longrightarrow>
      (\<exists>t. out_RegisterNode s a = Inr t \<and> n_ID (nodes t a) = getNbFileStackNodes s \<and>
           n_next (nodes t a) = fileStackNodes s \<and> fileStackNodes t = Some a \<and>
           getNbFileStackNodes t = getNbFileStackNodes s + 1 \<and>
           (\<forall>b. b \<noteq> a \<longrightarrow> nodes t b = nodes s b))) \<and>
   (unregChain (nodes s) a as \<and> unat (getNbFileStackNodes s) + length as < 2 ^ 32 \<longrightarrow>
      (\<exists>t. out_RegisterNode s a = Inr t \<and> t = foldl linkNode s as \<and>
           (\<forall>i. i < length as \<longrightarrow>
                n_ID (nodes t (as ! i)) = getNbFileStackNodes s + of_nat i \<and>
                n_next (nodes t (as ! i)) = (if i = 0 then fileStackNodes s else Some (as ! (i - 1)))) \<and>
           fileStackNodes t = Some (last as) \<and>
           getNbFileStackNodes t = getNbFileStackNodes s + of_nat (length as) \<and>
           (\<forall>b. b \<notin> set as \<longrightarrow> nodes t b = nodes s b)))"
proof (intro conjI impI)
  show "out_RegisterNode s a = Inr s" if "n_ID (nodes s a) \<noteq> -1"
    using that by (rule register_registered)
  show "out_RegisterNode s' a = Inr s'" if "out_RegisterNode s a = Inr s'"
    using register_assigns [OF that] by (rule register_registered)
next
  assume h: "n_ID (nodes s a) = -1 \<and> n_parent (nodes s a) = Some p \<and>
    n_ID (nodes s p) \<noteq> -1 \<and> getNbFileStackNodes s \<noteq> -1"
  then have "out_RegisterNode s a = Inr (linkNode s a)"
    by (intro register_one) simp_all
  then show "\<exists>t. out_RegisterNode s a = Inr t \<and> n_ID (nodes t a) = getNbFileStackNodes s \<and>
           n_next (nodes t a) = fileStackNodes s \<and> fileStackNodes t = Some a \<and>
           getNbFileStackNodes t = getNbFileStackNodes s + 1 \<and>
           (\<forall>b. b \<noteq> a \<longrightarrow> nodes t b = nodes s b)"
    by (simp add: getNb_linkNode) (simp add: linkNode_def)
next
  assume h: "unregChain (nodes s) a as \<and> unat (getNbFileStackNodes s) + length as < 2 ^ 32"
  then have run: "out_RegisterNode s a = Inr (foldl linkNode s as)"
    by (intro register_chain) simp_all
  from h have d: "distinct as" by (auto dest: unregChain_distinct)
  from h have ne: "as \<noteq> []" by auto
  show "\<exists>t. out_RegisterNode s a = Inr t \<and> t = foldl linkNode s as \<and>
           (\<forall>i. i < length as \<longrightarrow>
                n_ID (nodes t (as ! i)) = getNbFileStackNodes s + of_nat i \<and>
                n_next (nodes t (as ! i)) = (if i = 0 then fileStackNodes s else Some (as ! (i - 1)))) \<and>
           fileStackNodes t = Some (last as) \<and>
           getNbFileStackNodes t = getNbFileStackNodes s + of_nat (length as) \<and>
           (\<forall>b. b \<notin> set as \<longrightarrow> nodes t b = nodes s b)"
    using run d ne
    by (simp add: foldl_linkNode_ID foldl_linkNode_next foldl_linkNode_head
          foldl_linkNode_count foldl_linkNode_other)
qed

lemma example_chain: "unregChain (nodes exampleRegistry) 2 [2, 1, 0]"
  by (simp add: exampleRegistry_def exampleNode_def)

lemma example_chain_one:
  "unregChain (nodes (linkNode (linkNode exampleRegistry 1) 0)) 2 [2]"
  by (simp add: exampleRegistry_def exampleNode_def linkNode_def getNbFileStackNodes_def)

theorem register_node_walk_witness:
  "out_RegisterNode (linkNode (linkNode exampleRegistry 1) 0) 1
     = Inr (linkNode (linkNode exampleRegistry 1) 0) \<and>
   out_RegisterNode (linkNode (linkNode exampleRegistry 1) 0) 2
     = Inr (linkNode (linkNode (linkNode exampleRegistry 1) 0) 2) \<and>
   out_RegisterNode exampleRegistry 2 = Inr (foldl linkNode exampleRegistry [2, 1, 0]) \<and>
   n_ID (nodes (foldl linkNode exampleRegistry [2, 1, 0]) 0) = 2"
proof -
  let ?s = "linkNode (linkNode exampleRegistry 1) 0"
  have reg: "n_ID (nodes ?s 1) \<noteq> -1"
    by (simp add: exampleRegistry_def exampleNode_def linkNode_def getNbFileStackNodes_def)
  have one: "n_ID (nodes ?s 2) = -1 \<and> n_parent (nodes ?s 2) = Some 1 \<and>
    n_ID (nodes ?s 1) \<noteq> -1 \<and> getNbFileStackNodes ?s \<noteq> -1"
    by (simp add: exampleRegistry_def exampleNode_def linkNode_def getNbFileStackNodes_def)
  have cnt: "unat (getNbFileStackNodes exampleRegistry) + length [2 :: nat, 1, 0] < 2 ^ 32"
    by (simp add: exampleRegistry_def getNbFileStackNodes_def)
  have a: "out_RegisterNode ?s 1 = Inr ?s"
    using register_node_walk [of ?s 1] reg by blast
  from register_node_walk [of ?s 2 _ 1] one
  obtain t where t: "out_RegisterNode ?s 2 = Inr t" by blast
  from register_node_walk [of ?s 2 t] t have "out_RegisterNode t 2 = Inr t" by blast
  have b: "out_RegisterNode ?s 2 = Inr (linkNode ?s 2)"
    using one by (intro register_one) simp_all
  from register_node_walk [of exampleRegistry 2 _ _ "[2, 1, 0]"] example_chain cnt
  obtain u where c: "out_RegisterNode exampleRegistry 2 = Inr u"
    and u: "u = foldl linkNode exampleRegistry [2, 1, 0]"
    and ids: "\<forall>i. i < length [2 :: nat, 1, 0] \<longrightarrow>
                n_ID (nodes u ([2, 1, 0] ! i)) = getNbFileStackNodes exampleRegistry + of_nat i \<and>
                n_next (nodes u ([2, 1, 0] ! i))
                  = (if i = 0 then fileStackNodes exampleRegistry else Some ([2, 1, 0] ! (i - 1)))"
    by blast
  from ids [rule_format, of 2] have "n_ID (nodes u 0) = 2"
    by (simp add: exampleRegistry_def getNbFileStackNodes_def)
  with a b c u show ?thesis by simp
qed

lemma idGap_iff:
  "idGap h xs \<longleftrightarrow> (\<exists>i. Suc i < length xs \<and> n_ID (h (xs ! Suc i)) \<noteq> n_ID (h (xs ! i)) - 1)"
proof (induction h xs rule: idGap.induct)
  case (1 h a b bs)
  have "(\<exists>i. Suc i < length (a # b # bs) \<and>
            n_ID (h ((a # b # bs) ! Suc i)) \<noteq> n_ID (h ((a # b # bs) ! i)) - 1)
        \<longleftrightarrow> n_ID (h b) \<noteq> n_ID (h a) - 1 \<or>
            (\<exists>j. Suc j < length (b # bs) \<and>
               n_ID (h ((b # bs) ! Suc j)) \<noteq> n_ID (h ((b # bs) ! j)) - 1)"
    (is "(\<exists>i. ?P i) \<longleftrightarrow> ?A \<or> (\<exists>j. ?Q j)")
  proof
    assume "\<exists>i. ?P i"
    then obtain i where i: "?P i" ..
    show "?A \<or> (\<exists>j. ?Q j)"
    proof (cases i)
      case 0
      with i show ?thesis by simp
    next
      case (Suc j)
      with i have "?Q j" by simp
      then show ?thesis by blast
    qed
  next
    assume "?A \<or> (\<exists>j. ?Q j)"
    then show "\<exists>i. ?P i"
    proof
      assume ?A
      then have "?P 0" by simp
      then show ?thesis ..
    next
      assume "\<exists>j. ?Q j"
      then obtain j where "?Q j" ..
      then have "?P (Suc j)" by simp
      then show ?thesis ..
    qed
  qed
  with 1 show ?case by simp
qed simp_all

lemma writeFileStackNodes_flatList:
  "flatList h p xs \<Longrightarrow>
   writeFileStackNodes k h p f =
     Some (if idGap h xs then Inl FstackNodeOrder
           else Inr (f @ concat (map (\<lambda>a. writeFileStackNode k h (h a)) xs)))"
proof (induction xs arbitrary: p f)
  case Nil
  then show ?case by (subst writeFileStackNodes.simps) simp
next
  case (Cons a as)
  then have p: "p = Some a" and tl: "flatList h (n_next (h a)) as" by simp_all
  show ?case
  proof (cases as)
    case Nil
    with tl have "n_next (h a) = None" by simp
    with p Nil show ?thesis
      by (subst writeFileStackNodes.simps, simp, subst writeFileStackNodes.simps, simp)
  next
    case (Cons b bs)
    with tl have nx: "n_next (h a) = Some b" by simp
    show ?thesis
    proof (cases "n_ID (h b) \<noteq> n_ID (h a) - 1")
      case True
      with p nx Cons show ?thesis by (subst writeFileStackNodes.simps) simp
    next
      case False
      with p nx have "writeFileStackNodes k h p f
        = writeFileStackNodes k h (n_next (h a)) (f @ writeFileStackNode k h (h a))"
        by (subst writeFileStackNodes.simps) simp
      also note Cons.IH [OF tl]
      finally show ?thesis using False Cons by simp
    qed
  qed
qed

lemma inv_no_gap: "registry_inv s xs \<Longrightarrow> \<not> idGap (nodes s) xs"
  by (simp add: idGap_iff inv_adjacent)

text \<open>
  C7. While the table of file stack nodes is written, the fatal error is raised exactly
  when some two adjacent entries of the flat list have IDs that are not one apart; otherwise
  every node record is written, in list order.  After any sequence of registrations from the
  empty registry the loop returns without the fatal error.
\<close>

theorem node_table_order_check:
  "(flatList h p xs \<longrightarrow>
      writeFileStackNodes k h p f =
        Some (if \<exists>i. Suc i < length xs \<and> n_ID (h (xs ! Suc i)) \<noteq> n_ID (h (xs ! i)) - 1
              then Inl FstackNodeOrder
              else Inr (f @ concat (map (\<lambda>a. writeFileStackNode k h (h a)) xs)))) \<and>
   (fileStackNodes s0 = None \<and> (\<forall>a. n_ID (nodes s0 a) = -1) \<and> registerAll s0 as = Inr s \<longrightarrow>
      (\<exists>bytes. writeFileStackNodes k (nodes s) (fileStackNodes s) f = Some (Inr bytes)))"
proof (intro conjI impI)
  assume "flatList h p xs"
  from writeFileStackNodes_flatList [OF this, of k f]
  show "writeFileStackNodes k h p f =
        Some (if \<exists>i. Suc i < length xs \<and> n_ID (h (xs ! Suc i)) \<noteq> n_ID (h (xs ! i)) - 1
              then Inl FstackNodeOrder
              else Inr (f @ concat (map (\<lambda>a. writeFileStackNode k h (h a)) xs)))"
    by (simp only: idGap_iff)
next
  assume h: "fileStackNodes s0 = None \<and> (\<forall>a. n_ID (nodes s0 a) = -1) \<and> registerAll s0 as = Inr s"
  then have i0: "registry_inv s0 []" by (intro inv_initial) simp_all
  from h have run: "registerAll s0 as = Inr s" by simp
  from inv_registerAll [OF i0 run] obtain xs where inv: "registry_inv s xs" by auto
  then have "flatList (nodes s) (fileStackNodes s) xs" by (simp add: registry_inv_def)
  from writeFileStackNodes_flatList [OF this, of k f] inv_no_gap [OF inv]
  show "\<exists>bytes. writeFileStackNodes k (nodes s) (fileStackNodes s) f = Some (Inr bytes)"
    by simp
qed

theorem node_table_order_check_witness:
  "flatList gapNodes (Some 1) [1, 0] \<and>
   writeFileStackNodes exampleConstants gapNodes (Some 1) [] = Some (Inl FstackNodeOrder) \<and>
   registerAll exampleRegistry [1, 1, 0, 2]
     = Inr (linkNode (linkNode (linkNode exampleRegistry 1) 0) 2) \<and>
   (\<exists>bytes. writeFileStackNodes exampleConstants
       (nodes (linkNode (linkNode (linkNode exampleRegistry 1) 0) 2))
       (fileStackNodes (linkNode (linkNode (linkNode exampleRegistry 1) 0) 2)) []
         = Some (Inr bytes))"
proof -
  have l: "flatList gapNodes (Some 1) [1, 0]" by (simp add: gapNodes_def)
  have g: "\<exists>i. Suc i < length [1 :: nat, 0] \<and>
    n_ID (gapNodes ([1, 0] ! Suc i)) \<noteq> n_ID (gapNodes ([1, 0] ! i)) - 1"
    by (rule exI [of _ 0]) (simp add: gapNodes_def)
  have a: "fileStackNodes exampleRegistry = None" by (simp add: exampleRegistry_def)
  have b: "\<forall>a. n_ID (nodes exampleRegistry a) = -1"
    by (simp add: exampleRegistry_def exampleNode_def)
  from node_table_order_check [THEN conjunct1, rule_format, OF l, of exampleConstants "[]"] g
  have "writeFileStackNodes exampleConstants gapNodes (Some 1) [] = Some (Inl FstackNodeOrder)"
    by (simp only: if_True)
  moreover from node_table_order_check [THEN conjunct2, rule_format, of exampleRegistry
      "[1, 1, 0, 2]" "linkNode (linkNode (linkNode exampleRegistry 1) 0) 2" exampleConstants "[]"]
    a b example_run
  have "\<exists>bytes. writeFileStackNodes exampleConstants
       (nodes (linkNode (linkNode (linkNode exampleRegistry 1) 0) 2))
       (fileStackNodes (linkNode (linkNode (linkNode exampleRegistry 1) 0) 2)) []
         = Some (Inr bytes)"
    by blast
  ultimately show ?thesis using l example_run by blast
qed

lemma fputlong_minus1: "fputlong (-1) = [0xFF, 0xFF, 0xFF, 0xFF]"
proof -
  have "(-1 :: u32) = 4294967295" by simp
  then show ?thesis by (simp only: fputlong_def fputc_def) simp
qed

lemma length_concat_fputlong: "length (concat (map fputlong vs)) = 4 * length vs"
  by (induction vs) (simp_all add: fputlong_def fputc_def)

lemma length_fputlong: "length (fputlong v) = 4"
  by (simp add: fputlong_def fputc_def)

lemma writeIters_rev:
  "n \<le> length its \<Longrightarrow> writeIters its n = concat (map fputlong (rev (take n its)))"
  by (induction n) (simp_all add: take_Suc_conv_app_nth)

lemma length_writeIters: "length (writeIters its n) = 4 * n"
  by (induction n) (simp_all add: length_fputlong)

lemma fputlong_small: "fputlong 2 = [2, 0, 0, 0]" "fputlong 3 = [3, 0, 0, 0]"
  "fputlong 5 = [5, 0, 0, 0]" "fputlong 7 = [7, 0, 0, 0]"
  by (simp_all add: fputlong_def fputc_def drop_bit_eq_div)

lemma exampleRept_written:
  "writeFileStackNode exampleConstants h exampleRept
     = fputlong (-1) @ fputlong 5 @ [0] @ fputlong 2 @ fputlong 7 @ fputlong 3"
proof -
  have "writeIters [3, 7] (Suc (Suc 0)) = fputlong 7 @ fputlong 3" by simp
  then have "writeIters [3, 7] 2 = fputlong 7 @ fputlong 3" by (simp only: numeral_2_eq_2)
  then show ?thesis
    by (simp add: exampleRept_def exampleConstants_def writeFileStackNode_def fputc_def)
qed

theorem rept_iters_order_counterexample:
  "n_type exampleRept = NODE_REPT exampleConstants \<and>
   itersDeepestFirst exampleRept = [3, 7] \<and>
   writeFileStackNode exampleConstants (nodes exampleRegistry) exampleRept
     = [0xFF, 0xFF, 0xFF, 0xFF, 5, 0, 0, 0, 0, 2, 0, 0, 0, 7, 0, 0, 0, 3, 0, 0, 0] \<and>
   writeFileStackNode exampleConstants (nodes exampleRegistry) exampleRept
     \<noteq> fputlong (-1) @ fputlong (n_lineNo exampleRept) @ fputc (n_type exampleRept) @
       fputlong (n_reptDepth exampleRept) @
       concat (map fputlong (itersDeepestFirst exampleRept))"
proof -
  have a: "n_type exampleRept = NODE_REPT exampleConstants"
    by (simp add: exampleRept_def exampleConstants_def)
  have b: "itersDeepestFirst exampleRept = [3, 7]"
    by (simp add: exampleRept_def itersDeepestFirst_def)
  have c: "n_lineNo exampleRept = 5" "n_type exampleRept = 0" "n_reptDepth exampleRept = 2"
    by (simp_all add: exampleRept_def)
  show ?thesis
    unfolding exampleRept_written b c
    using a by (simp add: c fputlong_minus1 fputlong_small fputc_def)
qed

text \<open>
  C9 (amended). The record of a REPEAT node is the parent ID (all-ones without parent),
  the line number, the kind tag, the nesting depth and then exactly depth counters of four
  bytes each, in the reverse of their storage order.  Storage runs from the deepest level
  to the shallowest, so the counters are written from the shallowest level to the deepest.
\<close>

theorem rept_node_record:
  "n_type node = NODE_REPT k \<and> unat (n_reptDepth node) \<le> length (n_iters node) \<longrightarrow>
     writeFileStackNode k h node =
       fputlong (case n_parent node of Some p \<Rightarrow> n_ID (h p) | None \<Rightarrow> -1) @
       fputlong (n_lineNo node) @ [n_type node] @ fputlong (n_reptDepth node) @
       concat (map fputlong (rev (itersDeepestFirst node))) \<and>
     length (writeFileStackNode k h node) = 13 + 4 * unat (n_reptDepth node) \<and>
     fputlong (-1) = [0xFF, 0xFF, 0xFF, 0xFF]"
  by (simp add: writeFileStackNode_def writeIters_rev itersDeepestFirst_def fputc_def
      length_fputlong length_concat_fputlong fputlong_minus1)

theorem rept_node_record_witness:
  "n_type exampleRept = NODE_REPT exampleConstants \<and>
   unat (n_reptDepth exampleRept) \<le> length (n_iters exampleRept) \<and>
   writeFileStackNode exampleConstants (nodes exampleRegistry) exampleRept =
       fputlong (-1) @ fputlong 5 @ [0] @ fputlong 2 @ fputlong 7 @ fputlong 3"
proof -
  have a: "n_type exampleRept = NODE_REPT exampleConstants \<and>
    unat (n_reptDepth exampleRept) \<le> length (n_iters exampleRept)"
    by (simp add: exampleRept_def exampleConstants_def)
  from rept_node_record [of exampleRept exampleConstants "nodes exampleRegistry"] a
  have "writeFileStackNode exampleConstants (nodes exampleRegistry) exampleRept =
       fputlong (case n_parent exampleRept of Some p \<Rightarrow> n_ID (nodes exampleRegistry p) | None \<Rightarrow> -1) @
       fputlong (n_lineNo exampleRept) @ [n_type exampleRept] @ fputlong (n_reptDepth exampleRept) @
       concat (map fputlong (rev (itersDeepestFirst exampleRept)))"
    by blast
  then show ?thesis using a
    by (simp add: exampleRept_def itersDeepestFirst_def)
qed

lemma ucast_and_255: "(ucast ((v :: u32) AND 0xFF) :: u8) = ucast v"
proof -
  have "v AND 0xFF = take_bit 8 v" by (simp add: take_bit_eq_mask mask_eq_exp_minus_1)
  moreover have "(ucast (take_bit 8 v) :: u8) = ucast v"
    by (rule bit_word_eqI) (auto simp: bit_simps)
  ultimately show ?thesis by (simp only:)
qed

lemma valueBytes_fputlong: "valueBytes v = fputlong v"
  by (simp add: valueBytes_def fputlong_def fputc_def ucast_and_255)

lemma le32_bytes:
  "le32 [ucast v, ucast (drop_bit 8 v), ucast (drop_bit 16 v), ucast (drop_bit 24 v)] = (v :: u32)"
  unfolding le32_def
proof (rule bit_word_eqI)
  fix n
  assume n: "n < LENGTH(32)"
  consider "n < 8" | "8 \<le> n" "n < 16" | "16 \<le> n" "n < 24" | "24 \<le> n" by linarith
  then show "bit (ucast (([ucast v, ucast (drop_bit 8 v), ucast (drop_bit 16 v),
                           ucast (drop_bit 24 v)] :: u8 list) ! 0) OR
                  push_bit 8 (ucast ([ucast v, ucast (drop_bit 8 v), ucast (drop_bit 16 v),
                           ucast (drop_bit 24 v) :: u8] ! 1)) OR
                  push_bit 16 (ucast ([ucast v, ucast (drop_bit 8 v), ucast (drop_bit 16 v),
                           ucast (drop_bit 24 v) :: u8] ! 2)) OR
                  push_bit 24 (ucast ([ucast v, ucast (drop_bit 8 v), ucast (drop_bit 16 v),
                           ucast (drop_bit 24 v) :: u8] ! 3)) :: u32) n = bit v n"
    using n by cases (auto simp: bit_simps)
qed

text \<open>
  C1. When the value of the expression is known, a patch that \<^verbatim>\<open>allocpatch\<close> creates has
  an RPN of exactly 5 bytes, the opcode \<^verbatim>\<open>RPN_CONST\<close> and then the 32-bit value in
  little-endian order, and the recorded size is 5.  The patch is created whenever both
  allocations succeed and the file stack node can be registered.
\<close>

theorem known_value_patch:
  "e_isKnown expr \<longrightarrow>
     (\<forall>patch s'. allocpatch k env s type expr ofs = Inr (patch, s') \<longrightarrow>
        p_pRPN patch = RPN_CONST k # fputlong (e_nVal expr) \<and>
        length (p_pRPN patch) = 5 \<and>
        le32 (tl (p_pRPN patch)) = e_nVal expr \<and>
        p_nRPNSize patch = 5) \<and>
     (mallocPatch env \<and> mallocRPN env \<and>
      (\<exists>s1. out_RegisterNode s (fstk_GetFileStack env) = Inr s1) \<longrightarrow>
        (\<exists>patch s'. allocpatch k env s type expr ofs = Inr (patch, s')))"
proof (intro impI conjI allI)
  fix patch s'
  assume known: "e_isKnown expr" and ok: "allocpatch k env s type expr ofs = Inr (patch, s')"
  from known ok have rpn: "p_pRPN patch = RPN_CONST k # valueBytes (e_nVal expr)"
    and sz: "p_nRPNSize patch = 5"
    by (auto simp: allocpatch_def Let_def valueBytes_def split: if_splits sum.splits)
  from rpn show "p_pRPN patch = RPN_CONST k # fputlong (e_nVal expr)"
    by (simp add: valueBytes_fputlong)
  from rpn show "length (p_pRPN patch) = 5" by (simp add: valueBytes_def)
  from rpn show "le32 (tl (p_pRPN patch)) = e_nVal expr"
    by (simp add: valueBytes_def ucast_and_255 le32_bytes)
  from sz show "p_nRPNSize patch = 5" .
next
  assume "e_isKnown expr"
    and "mallocPatch env \<and> mallocRPN env \<and>
      (\<exists>s1. out_RegisterNode s (fstk_GetFileStack env) = Inr s1)"
  then show "\<exists>patch s'. allocpatch k env s type expr ofs = Inr (patch, s')"
    by (auto simp: allocpatch_def Let_def)
qed

lemma exampleState_register2:
  "out_RegisterNode exampleState 2 = Inr (linkNode (linkNode (linkNode exampleState 2) 1) 0)"
  by (simp add: out_RegisterNode.simps exampleState_def exampleNode_def linkNode_def
      getNbFileStackNodes_def)

theorem known_value_patch_witness:
  "e_isKnown knownExpr \<and>
   (\<exists>patch s'. allocpatch exampleConstants exampleEnv exampleState 1 knownExpr 0 = Inr (patch, s') \<and>
      p_pRPN patch = [RPN_CONST exampleConstants, 0x2A, 0, 0, 0] \<and> p_nRPNSize patch = 5)"
proof -
  have known: "e_isKnown knownExpr" by (simp add: knownExpr_def)
  have "mallocPatch exampleEnv \<and> mallocRPN exampleEnv \<and>
      (\<exists>s1. out_RegisterNode exampleState (fstk_GetFileStack exampleEnv) = Inr s1)"
    using exampleState_register2 by (simp add: exampleEnv_def)
  with known_value_patch [of knownExpr exampleConstants exampleEnv exampleState 1 0] known
  obtain patch s' where
    ok: "allocpatch exampleConstants exampleEnv exampleState 1 knownExpr 0 = Inr (patch, s')"
    by blast
  with known_value_patch [of knownExpr exampleConstants exampleEnv exampleState 1 0] known
  have "p_pRPN patch = RPN_CONST exampleConstants # fputlong (e_nVal knownExpr)"
    and "p_nRPNSize patch = 5"
    by blast+
  then have "p_pRPN patch = [RPN_CONST exampleConstants, 0x2A, 0, 0, 0]" "p_nRPNSize patch = 5"
    by (simp_all add: knownExpr_def fputlong_def fputc_def drop_bit_eq_div)
  with ok known show ?thesis by blast
qed

lemma linkNode_frame:
  "linkNode s a = s\<lparr>nodes := nodes (linkNode s a), fileStackNodes := fileStackNodes (linkNode s a)\<rparr>"
  by (simp add: linkNode_def)

lemma register_frame:
  "out_RegisterNode s a = Inr s' \<Longrightarrow> s' = s\<lparr>nodes := nodes s', fileStackNodes := fileStackNodes s'\<rparr>"
proof (induction s a rule: out_RegisterNode.induct)
  case (1 s node)
  show ?case
  proof (cases "n_ID (nodes s node) = -1")
    case False
    with "1.prems" show ?thesis by (simp add: out_RegisterNode.simps)
  next
    case True
    with "1.prems" have room: "getNbFileStackNodes s \<noteq> -1"
      by (auto simp: out_RegisterNode.simps split: if_splits)
    show ?thesis
    proof (cases "n_parent (nodes s node)")
      case None
      with True room "1.prems" have e: "s' = linkNode s node"
        by (simp add: out_RegisterNode.simps)
      show ?thesis unfolding e by (rule linkNode_frame)
    next
      case (Some p)
      with True room "1.prems" have r: "out_RegisterNode (linkNode s node) p = Inr s'"
        by (simp add: out_RegisterNode.simps)
      from "1.IH" [OF True room Some r]
      have "s' = (linkNode s node)\<lparr>nodes := nodes s', fileStackNodes := fileStackNodes s'\<rparr>" .
      then show ?thesis by (simp add: linkNode_def)
    qed
  qed
qed

lemma register_State:
  fixes s :: State
  assumes "out_RegisterNode s a = Inr s'"
  shows "symbols s' = symbols s" "symbolTable s' = symbolTable s"
    "objectSymbols s' = objectSymbols s" "nbSymbols s' = nbSymbols s"
    "assertions s' = assertions s" "sections s' = sections s"
    "pSectionList s' = pSectionList s" "pCurrentSection s' = pCurrentSection s"
proof -
  from register_frame [OF assms]
  have e: "s' = s\<lparr>nodes := nodes s', fileStackNodes := fileStackNodes s'\<rparr>" .
  show "symbols s' = symbols s" by (subst e) simp
  show "symbolTable s' = symbolTable s" by (subst e) simp
  show "objectSymbols s' = objectSymbols s" by (subst e) simp
  show "nbSymbols s' = nbSymbols s" by (subst e) simp
  show "assertions s' = assertions s" by (subst e) simp
  show "sections s' = sections s" by (subst e) simp
  show "pSectionList s' = pSectionList s" by (subst e) simp
  show "pCurrentSection s' = pCurrentSection s" by (subst e) simp
qed

lemma registerSymbol_result:
  assumes "registerSymbol s symbol = Inr s'"
  shows "symbols s' = (symbols s)(symbol := (symbols s symbol)\<lparr>sym_ID := nbSymbols s\<rparr>)"
    and "nbSymbols s \<noteq> -1" and "nbSymbols s' = nbSymbols s + 1"
    and "objectSymbols s' = objectSymbols s @ [symbol]"
    and "symbolTable s' = symbolTable s" and "assertions s' = assertions s"
    and "sections s' = sections s" and "pSectionList s' = pSectionList s"
    and "pCurrentSection s' = pCurrentSection s"
proof -
  let ?s1 = "s\<lparr>objectSymbols := objectSymbols s @ [symbol]\<rparr>"
  from assms obtain s2 where r: "out_RegisterNode ?s1 (sym_src (symbols ?s1 symbol)) = Inr s2"
    and room: "nbSymbols s2 \<noteq> -1"
    and s': "s' = s2\<lparr>symbols := (symbols s2)(symbol := (symbols s2 symbol)\<lparr>sym_ID := nbSymbols s2\<rparr>),
                     nbSymbols := nbSymbols s2 + 1\<rparr>"
    by (auto simp: registerSymbol_def Let_def split: sum.splits if_splits)
  note f = register_State [OF r]
  show "symbols s' = (symbols s)(symbol := (symbols s symbol)\<lparr>sym_ID := nbSymbols s\<rparr>)"
    using s' f by simp
  show "nbSymbols s \<noteq> -1" using room f by simp
  show "nbSymbols s' = nbSymbols s + 1" using s' f by simp
  show "objectSymbols s' = objectSymbols s @ [symbol]" using s' f by simp
  show "symbolTable s' = symbolTable s" using s' f by simp
  show "assertions s' = assertions s" using s' f by simp
  show "sections s' = sections s" using s' f by simp
  show "pSectionList s' = pSectionList s" using s' f by simp
  show "pCurrentSection s' = pCurrentSection s" using s' f by simp
qed

lemma popstring_at:
  assumes "drop offset rpn = str @ 0 # rest" and "0 \<notin> set str"
  shows "popstring rpn offset = Some (str, offset + length str + 1)"
proof -
  from assms(2) have "takeWhile (\<lambda>b. b \<noteq> 0) (str @ 0 # rest) = str"
    by (induction str) auto
  moreover have "length (drop offset rpn) = length str + 1 + length rest"
    by (simp add: assms(1))
  then have "offset + length str < length rpn" by simp
  ultimately show ?thesis by (simp add: popstring_def assms(1))
qed

lemma popbyte_at:
  assumes "drop offset rpn = b # rest"
  shows "popbyte rpn offset = Some (b, offset + 1)" and "drop (offset + 1) rpn = rest"
proof -
  from assms have l: "offset < length rpn" by (cases "offset < length rpn") auto
  from l assms have "rpn ! offset = b" by (simp add: Cons_nth_drop_Suc [symmetric])
  with l show "popbyte rpn offset = Some (b, offset + 1)" by (simp add: popbyte_def)
  from l assms show "drop (offset + 1) rpn = rest" by (simp add: Cons_nth_drop_Suc [symmetric])
qed

lemma getSymbolID_cases:
  "sym_ID (symbols s symbol) \<noteq> -1 \<Longrightarrow> getSymbolID s symbol = Inr (sym_ID (symbols s symbol), s)"
  "sym_isPC (symbols s symbol) \<Longrightarrow> getSymbolID s symbol = Inr (sym_ID (symbols s symbol), s)"
  "sym_ID (symbols s symbol) = -1 \<Longrightarrow> \<not> sym_isPC (symbols s symbol) \<Longrightarrow>
     getSymbolID s symbol =
       (case registerSymbol s symbol of Inl e \<Rightarrow> Inl e | Inr s' \<Rightarrow> Inr (nbSymbols s, s'))"
  by (auto simp: getSymbolID_def registerSymbol_result(1) split: sum.splits)

lemma rpnStep_sym:
  assumes "drop offset rpn = RPN_SYM k # tzSym @ 0 # rest" and "0 \<notin> set tzSym"
    and "length tzSym < 512" and "sym_FindSymbol s tzSym = Some symbol"
    and "RPN_SYM k \<noteq> RPN_CONST k"
  shows "rpnStep k s rpn offset =
    (if sym_isConstant (symbols s symbol)
     then Inr (RPN_CONST k # valueBytes (sym_constantValue (symbols s symbol)),
               offset + length tzSym + 2, s)
     else (case getSymbolID s symbol of
             Inl e \<Rightarrow> Inl e
           | Inr (v, s') \<Rightarrow> Inr (RPN_SYM k # valueBytes v, offset + length tzSym + 2, s')))"
proof -
  note b = popbyte_at [OF assms(1)]
  from popstring_at [of "offset + 1" rpn tzSym rest] b(2) assms(2)
  have "popstring rpn (offset + 1) = Some (tzSym, offset + 1 + length tzSym + 1)" by simp
  with b(1) assms(3-5) show ?thesis by (auto simp: rpnStep_def split: sum.splits)
qed

lemma rpnStep_bank_sym:
  assumes "drop offset rpn = RPN_BANK_SYM k # tzSym @ 0 # rest" and "0 \<notin> set tzSym"
    and "length tzSym < 512" and "sym_FindSymbol s tzSym = Some symbol"
    and "switch_labels_distinct k"
  shows "rpnStep k s rpn offset =
    (case getSymbolID s symbol of
       Inl e \<Rightarrow> Inl e
     | Inr (v, s') \<Rightarrow> Inr (RPN_BANK_SYM k # valueBytes v, offset + length tzSym + 2, s'))"
proof -
  note b = popbyte_at [OF assms(1)]
  from popstring_at [of "offset + 1" rpn tzSym rest] b(2) assms(2)
  have "popstring rpn (offset + 1) = Some (tzSym, offset + 1 + length tzSym + 1)" by simp
  with b(1) assms(3-5) show ?thesis
    by (auto simp: rpnStep_def switch_labels_distinct_def split: sum.splits)
qed

text \<open>
  C4 (amended). At a \<^verbatim>\<open>RPN_SYM\<close> opcode followed by a name that the symbol table knows:
  if the symbol is constant, \<^verbatim>\<open>writerpn\<close> writes \<^verbatim>\<open>RPN_CONST\<close> and the four little-endian
  bytes of the constant, and the state (so every symbol ID) is unchanged; otherwise it writes
  \<^verbatim>\<open>RPN_SYM\<close> and the four little-endian bytes of the symbol's ID field.  A symbol that has
  an ID keeps it; a symbol without ID that is not the PC symbol is registered and gets the
  next ID; the PC symbol without ID is not registered, and the bytes are those of \<^verbatim>\<open>-1\<close>.
\<close>

theorem rewrite_named_symbol:
  assumes "offset < rpnlen"
    and "drop offset rpn = RPN_SYM k # tzSym @ 0 # rest" and "0 \<notin> set tzSym"
    and "length tzSym < 512" and "sym_FindSymbol s tzSym = Some symbol"
    and "RPN_SYM k \<noteq> RPN_CONST k"
  shows
    "(sym_isConstant (symbols s symbol) \<longrightarrow>
        writerpn k s rpnexpr rpn rpnlen offset =
        writerpn k s (rpnexpr @ RPN_CONST k # fputlong (sym_constantValue (symbols s symbol)))
          rpn rpnlen (offset + length tzSym + 2)) \<and>
     (\<not> sym_isConstant (symbols s symbol) \<and> sym_ID (symbols s symbol) \<noteq> -1 \<longrightarrow>
        writerpn k s rpnexpr rpn rpnlen offset =
        writerpn k s (rpnexpr @ RPN_SYM k # fputlong (sym_ID (symbols s symbol)))
          rpn rpnlen (offset + length tzSym + 2)) \<and>
     (\<not> sym_isConstant (symbols s symbol) \<and> sym_ID (symbols s symbol) = -1 \<and>
      \<not> sym_isPC (symbols s symbol) \<longrightarrow>
        (case registerSymbol s symbol of
           Inl e \<Rightarrow> writerpn k s rpnexpr rpn rpnlen offset = Inl e
         | Inr s' \<Rightarrow>
             writerpn k s rpnexpr rpn rpnlen offset =
             writerpn k s' (rpnexpr @ RPN_SYM k # fputlong (nbSymbols s))
               rpn rpnlen (offset + length tzSym + 2) \<and>
             sym_ID (symbols s' symbol) = nbSymbols s \<and> nbSymbols s \<noteq> -1 \<and>
             nbSymbols s' = nbSymbols s + 1 \<and>
             objectSymbols s' = objectSymbols s @ [symbol])) \<and>
     (\<not> sym_isConstant (symbols s symbol) \<and> sym_ID (symbols s symbol) = -1 \<and>
      sym_isPC (symbols s symbol) \<longrightarrow>
        writerpn k s rpnexpr rpn rpnlen offset =
        writerpn k s (rpnexpr @ RPN_SYM k # fputlong (-1))
          rpn rpnlen (offset + length tzSym + 2))"
proof -
  note step = rpnStep_sym [OF assms(2-6)]
  have unfold: "writerpn k s rpnexpr rpn rpnlen offset =
    (case rpnStep k s rpn offset of
       Inl e \<Rightarrow> Inl e
     | Inr (bs, offset', s') \<Rightarrow> writerpn k s' (rpnexpr @ bs) rpn rpnlen offset')"
    using assms(1) by (simp add: writerpn.simps [of k s rpnexpr rpn rpnlen offset])
  show ?thesis
  proof (intro conjI impI)
    assume "sym_isConstant (symbols s symbol)"
    then show "writerpn k s rpnexpr rpn rpnlen offset =
        writerpn k s (rpnexpr @ RPN_CONST k # fputlong (sym_constantValue (symbols s symbol)))
          rpn rpnlen (offset + length tzSym + 2)"
      by (simp add: unfold step valueBytes_fputlong)
  next
    assume "\<not> sym_isConstant (symbols s symbol) \<and> sym_ID (symbols s symbol) \<noteq> -1"
    then show "writerpn k s rpnexpr rpn rpnlen offset =
        writerpn k s (rpnexpr @ RPN_SYM k # fputlong (sym_ID (symbols s symbol)))
          rpn rpnlen (offset + length tzSym + 2)"
      by (simp add: unfold step valueBytes_fputlong getSymbolID_cases(1))
  next
    assume h: "\<not> sym_isConstant (symbols s symbol) \<and> sym_ID (symbols s symbol) = -1 \<and>
      \<not> sym_isPC (symbols s symbol)"
    show "case registerSymbol s symbol of
           Inl e \<Rightarrow> writerpn k s rpnexpr rpn rpnlen offset = Inl e
         | Inr s' \<Rightarrow>
             writerpn k s rpnexpr rpn rpnlen offset =
             writerpn k s' (rpnexpr @ RPN_SYM k # fputlong (nbSymbols s))
               rpn rpnlen (offset + length tzSym + 2) \<and>
             sym_ID (symbols s' symbol) = nbSymbols s \<and> nbSymbols s \<noteq> -1 \<and>
             nbSymbols s' = nbSymbols s + 1 \<and>
             objectSymbols s' = objectSymbols s @ [symbol]"
    proof (cases "registerSymbol s symbol")
      case (Inl e)
      with h show ?thesis by (simp add: unfold step getSymbolID_cases(3))
    next
      case (Inr s')
      note r = registerSymbol_result [OF Inr]
      from h Inr show ?thesis
        by (simp add: unfold step getSymbolID_cases(3) valueBytes_fputlong r)
    qed
  next
    assume "\<not> sym_isConstant (symbols s symbol) \<and> sym_ID (symbols s symbol) = -1 \<and>
      sym_isPC (symbols s symbol)"
    then show "writerpn k s rpnexpr rpn rpnlen offset =
        writerpn k s (rpnexpr @ RPN_SYM k # fputlong (-1))
          rpn rpnlen (offset + length tzSym + 2)"
      by (simp add: unfold step valueBytes_fputlong getSymbolID_cases(2))
  qed
qed

lemma writerpn_done: "\<not> offset < rpnlen \<Longrightarrow> writerpn k s rpnexpr rpn rpnlen offset = Inr (rpnexpr, s)"
  by (simp add: writerpn.simps)

lemma example_find:
  "sym_FindSymbol exampleState [0x40] = Some 0" "sym_FindSymbol exampleState [0x4B] = Some 1"
  "sym_FindSymbol exampleState [0x4C] = Some 2"
  by (simp_all add: sym_FindSymbol_def exampleState_def)

lemma example_symbols:
  "symbols exampleState 0 = (exampleSymbol [0x40])\<lparr>sym_isPC := True\<rparr>"
  "symbols exampleState 1 = (exampleSymbol [0x4B])\<lparr>sym_isConstant := True,
     sym_constantValue := 42, sym_section := None\<rparr>"
  "symbols exampleState 2 = exampleSymbol [0x4C]"
  by (simp_all add: exampleState_def exampleSymbols_def)

lemma example_opcodes:
  "RPN_CONST exampleConstants = 0x80" "RPN_SYM exampleConstants = 0x81"
  "RPN_BANK_SYM exampleConstants = 0x50" "RPN_BANK_SECT exampleConstants = 0x51"
  "switch_labels_distinct exampleConstants"
  by (simp_all add: exampleConstants_def switch_labels_distinct_def)

text \<open>
  C4 (as stated). The PC symbol of the example is not constant and has no ID.  Rewriting a
  \<^verbatim>\<open>RPN_SYM\<close> reference to it writes the opcode and the bytes of \<^verbatim>\<open>-1\<close> and leaves the state
  as it was: no ID is allocated.
\<close>

theorem rewrite_named_symbol_counterexample:
  "sym_FindSymbol exampleState [0x40] = Some 0 \<and>
   \<not> sym_isConstant (symbols exampleState 0) \<and>
   sym_ID (symbols exampleState 0) = -1 \<and>
   writerpn exampleConstants exampleState [] [0x81, 0x40, 0] 3 0
     = Inr ([0x81, 0xFF, 0xFF, 0xFF, 0xFF], exampleState)"
proof -
  have step: "rpnStep exampleConstants exampleState [0x81, 0x40, 0] 0
    = Inr (0x81 # valueBytes (-1), 3, exampleState)"
    by (simp add: rpnStep_def popbyte_def popstring_def example_find example_symbols
        example_opcodes exampleSymbol_def getSymbolID_def)
  have "writerpn exampleConstants exampleState [] [0x81, 0x40, 0] 3 0
    = Inr (0x81 # valueBytes (-1), exampleState)"
    by (simp add: writerpn.simps [of _ _ _ _ 3 0] step writerpn_done)
  then show ?thesis
    by (simp add: valueBytes_fputlong fputlong_minus1 example_find example_symbols
        exampleSymbol_def)
qed

theorem rewrite_named_symbol_witness:
  "writerpn exampleConstants exampleState [] [0x81, 0x4B, 0] 3 0
     = Inr ([0x80, 42, 0, 0, 0], exampleState) \<and>
   (\<exists>s'. writerpn exampleConstants exampleState [] [0x81, 0x4C, 0] 3 0
            = Inr ([0x81, 0, 0, 0, 0], s') \<and>
         sym_ID (symbols s' 2) = 0 \<and> objectSymbols s' = [2])"
proof -
  have lt: "(0 :: nat) < 3" by simp
  have ne: "RPN_SYM exampleConstants \<noteq> RPN_CONST exampleConstants"
    by (simp add: example_opcodes)
  have k1: "drop 0 [0x81, 0x4B, 0] = RPN_SYM exampleConstants # [0x4B] @ 0 # []"
    and k2: "(0 :: u8) \<notin> set [0x4B]" and k3: "length [0x4B :: u8] < 512"
    by (simp_all add: example_opcodes)
  have c: "sym_isConstant (symbols exampleState 1)"
    by (simp only: example_symbols) (simp add: exampleSymbol_def)
  note rewrite_named_symbol [OF lt k1 k2 k3 example_find(2) ne, of "[]",
      THEN conjunct1, rule_format, OF c]
  moreover have "sym_constantValue (symbols exampleState 1) = 42"
    by (simp only: example_symbols) (simp add: exampleSymbol_def)
  ultimately have a: "writerpn exampleConstants exampleState [] [0x81, 0x4B, 0] 3 0
     = Inr ([0x80, 42, 0, 0, 0], exampleState)"
    by (simp add: writerpn_done example_opcodes fputlong_def fputc_def drop_bit_eq_div)
  have l1: "drop 0 [0x81, 0x4C, 0] = RPN_SYM exampleConstants # [0x4C] @ 0 # []"
    and l2: "(0 :: u8) \<notin> set [0x4C]" and l3: "length [0x4C :: u8] < 512"
    by (simp_all add: example_opcodes)
  have l: "\<not> sym_isConstant (symbols exampleState 2) \<and> sym_ID (symbols exampleState 2) = -1 \<and>
      \<not> sym_isPC (symbols exampleState 2)"
    by (simp add: example_symbols exampleSymbol_def)
  have "out_RegisterNode (exampleState\<lparr>objectSymbols := [2]\<rparr>) 0
     = Inr (linkNode (exampleState\<lparr>objectSymbols := [2]\<rparr>) 0)"
    by (simp add: out_RegisterNode.simps exampleState_def exampleNode_def
        getNbFileStackNodes_def)
  then obtain s' where r: "registerSymbol exampleState 2 = Inr s'"
    by (simp add: registerSymbol_def example_symbols exampleSymbol_def)
       (simp add: exampleState_def linkNode_def)
  from rewrite_named_symbol [OF lt l1 l2 l3 example_find(3) ne, of "[]",
      THEN conjunct2, THEN conjunct2, THEN conjunct1, rule_format, OF l] r
  have "writerpn exampleConstants exampleState [] [0x81, 0x4C, 0] 3 0 =
        writerpn exampleConstants s' ([] @ RPN_SYM exampleConstants # fputlong (nbSymbols exampleState))
          [0x81, 0x4C, 0] 3 (0 + length [0x4C :: u8] + 2)"
    and "sym_ID (symbols s' 2) = nbSymbols exampleState"
    and "objectSymbols s' = objectSymbols exampleState @ [2]"
    by simp_all
  then have "writerpn exampleConstants exampleState [] [0x81, 0x4C, 0] 3 0
            = Inr ([0x81, 0, 0, 0, 0], s') \<and>
         sym_ID (symbols s' 2) = 0 \<and> objectSymbols s' = [2]"
    by (simp add: writerpn_done example_opcodes fputlong_def fputc_def)
       (simp add: exampleState_def)
  with a show ?thesis by blast
qed

text \<open>
  C6 (as stated). The PC symbol of the example has no ID.  Rewriting a \<^verbatim>\<open>RPN_BANK_SYM\<close>
  reference to it writes the opcode and the bytes of \<^verbatim>\<open>-1\<close>, which is no symbol's ID, and
  leaves the state as it was: no ID is allocated.
\<close>

theorem rewrite_bank_symbol_counterexample:
  "sym_FindSymbol exampleState [0x40] = Some 0 \<and>
   sym_isPC (symbols exampleState 0) \<and>
   sym_ID (symbols exampleState 0) = -1 \<and>
   writerpn exampleConstants exampleState [] [0x50, 0x40, 0] 3 0
     = Inr ([0x50, 0xFF, 0xFF, 0xFF, 0xFF], exampleState)"
proof -
  have step: "rpnStep exampleConstants exampleState [0x50, 0x40, 0] 0
    = Inr (0x50 # valueBytes (-1), 3, exampleState)"
    by (simp add: rpnStep_def popbyte_def popstring_def example_find example_symbols
        example_opcodes exampleSymbol_def getSymbolID_def)
  have "writerpn exampleConstants exampleState [] [0x50, 0x40, 0] 3 0
    = Inr (0x50 # valueBytes (-1), exampleState)"
    by (simp add: writerpn.simps [of _ _ _ _ 3 0] step writerpn_done)
  then show ?thesis
    by (simp add: valueBytes_fputlong fputlong_minus1 example_find example_symbols
        exampleSymbol_def)
qed

text \<open>
  C6 (amended). At a \<^verbatim>\<open>RPN_BANK_SYM\<close> opcode followed by a name that the symbol table
  knows, \<^verbatim>\<open>writerpn\<close> writes \<^verbatim>\<open>RPN_BANK_SYM\<close>, which is not \<^verbatim>\<open>RPN_CONST\<close>, and the four
  little-endian bytes of the symbol's ID field, whether the symbol is constant or not.  A
  symbol that has an ID keeps it; a symbol without ID that is not the PC symbol is
  registered and gets the next ID; the PC symbol without ID is not registered, and the bytes
  are those of \<^verbatim>\<open>-1\<close>.
\<close>

theorem rewrite_bank_symbol:
  assumes "offset < rpnlen"
    and "drop offset rpn = RPN_BANK_SYM k # tzSym @ 0 # rest" and "0 \<notin> set tzSym"
    and "length tzSym < 512" and "sym_FindSymbol s tzSym = Some symbol"
    and "switch_labels_distinct k"
  shows
    "RPN_BANK_SYM k \<noteq> RPN_CONST k \<and>
     (sym_ID (symbols s symbol) \<noteq> -1 \<longrightarrow>
        writerpn k s rpnexpr rpn rpnlen offset =
        writerpn k s (rpnexpr @ RPN_BANK_SYM k # fputlong (sym_ID (symbols s symbol)))
          rpn rpnlen (offset + length tzSym + 2)) \<and>
     (sym_ID (symbols s symbol) = -1 \<and> \<not> sym_isPC (symbols s symbol) \<longrightarrow>
        (case registerSymbol s symbol of
           Inl e \<Rightarrow> writerpn k s rpnexpr rpn rpnlen offset = Inl e
         | Inr s' \<Rightarrow>
             writerpn k s rpnexpr rpn rpnlen offset =
             writerpn k s' (rpnexpr @ RPN_BANK_SYM k # fputlong (nbSymbols s))
               rpn rpnlen (offset + length tzSym + 2) \<and>
             sym_ID (symbols s' symbol) = nbSymbols s \<and> nbSymbols s \<noteq> -1 \<and>
             nbSymbols s' = nbSymbols s + 1 \<and>
             objectSymbols s' = objectSymbols s @ [symbol])) \<and>
     (sym_ID (symbols s symbol) = -1 \<and> sym_isPC (symbols s symbol) \<longrightarrow>
        writerpn k s rpnexpr rpn rpnlen offset =
        writerpn k s (rpnexpr @ RPN_BANK_SYM k # fputlong (-1))
          rpn rpnlen (offset + length tzSym + 2))"
proof -
  note step = rpnStep_bank_sym [OF assms(2-6)]
  have unfold: "writerpn k s rpnexpr rpn rpnlen offset =
    (case rpnStep k s rpn offset of
       Inl e \<Rightarrow> Inl e
     | Inr (bs, offset', s') \<Rightarrow> writerpn k s' (rpnexpr @ bs) rpn rpnlen offset')"
    using assms(1) by (simp add: writerpn.simps [of k s rpnexpr rpn rpnlen offset])
  show ?thesis
  proof (intro conjI impI)
    show "RPN_BANK_SYM k \<noteq> RPN_CONST k"
      using assms(6) by (auto simp: switch_labels_distinct_def)
  next
    assume "sym_ID (symbols s symbol) \<noteq> -1"
    then show "writerpn k s rpnexpr rpn rpnlen offset =
        writerpn k s (rpnexpr @ RPN_BANK_SYM k # fputlong (sym_ID (symbols s symbol)))
          rpn rpnlen (offset + length tzSym + 2)"
      by (simp add: unfold step valueBytes_fputlong getSymbolID_cases(1))
  next
    assume h: "sym_ID (symbols s symbol) = -1 \<and> \<not> sym_isPC (symbols s symbol)"
    show "case registerSymbol s symbol of
           Inl e \<Rightarrow> writerpn k s rpnexpr rpn rpnlen offset = Inl e
         | Inr s' \<Rightarrow>
             writerpn k s rpnexpr rpn rpnlen offset =
             writerpn k s' (rpnexpr @ RPN_BANK_SYM k # fputlong (nbSymbols s))
               rpn rpnlen (offset + length tzSym + 2) \<and>
             sym_ID (symbols s' symbol) = nbSymbols s \<and> nbSymbols s \<noteq> -1 \<and>
             nbSymbols s' = nbSymbols s + 1 \<and>
             objectSymbols s' = objectSymbols s @ [symbol]"
    proof (cases "registerSymbol s symbol")
      case (Inl e)
      with h show ?thesis by (simp add: unfold step getSymbolID_cases(3))
    next
      case (Inr s')
      note r = registerSymbol_result [OF Inr]
      from h Inr show ?thesis
        by (simp add: unfold step getSymbolID_cases(3) valueBytes_fputlong r)
    qed
  next
    assume "sym_ID (symbols s symbol) = -1 \<and> sym_isPC (symbols s symbol)"
    then show "writerpn k s rpnexpr rpn rpnlen offset =
        writerpn k s (rpnexpr @ RPN_BANK_SYM k # fputlong (-1))
          rpn rpnlen (offset + length tzSym + 2)"
      by (simp add: unfold step valueBytes_fputlong getSymbolID_cases(2))
  qed
qed

theorem rewrite_bank_symbol_witness:
  "sym_isConstant (symbols exampleState 1) \<and>
   (\<exists>s'. writerpn exampleConstants exampleState [] [0x50, 0x4B, 0] 3 0
            = Inr ([0x50, 0, 0, 0, 0], s') \<and>
         sym_ID (symbols s' 1) = 0 \<and> objectSymbols s' = [1])"
proof -
  have lt: "(0 :: nat) < 3" by simp
  have k1: "drop 0 [0x50, 0x4B, 0] = RPN_BANK_SYM exampleConstants # [0x4B] @ 0 # []"
    and k2: "(0 :: u8) \<notin> set [0x4B]" and k3: "length [0x4B :: u8] < 512"
    by (simp_all add: example_opcodes)
  have c: "sym_isConstant (symbols exampleState 1)"
    by (simp only: example_symbols) (simp add: exampleSymbol_def)
  have l: "sym_ID (symbols exampleState 1) = -1 \<and> \<not> sym_isPC (symbols exampleState 1)"
    by (simp only: example_symbols) (simp add: exampleSymbol_def)
  have src: "sym_src (symbols exampleState 1) = 0"
    by (simp only: example_symbols) (simp add: exampleSymbol_def)
  have "out_RegisterNode (exampleState\<lparr>objectSymbols := [1]\<rparr>) 0
     = Inr (linkNode (exampleState\<lparr>objectSymbols := [1]\<rparr>) 0)"
    by (simp add: out_RegisterNode.simps exampleState_def exampleNode_def
        getNbFileStackNodes_def)
  then obtain s' where r: "registerSymbol exampleState 1 = Inr s'"
    using src by (simp add: registerSymbol_def) (simp add: exampleState_def linkNode_def)
  from rewrite_bank_symbol [OF lt k1 k2 k3 example_find(2) example_opcodes(5), of "[]",
      THEN conjunct2, THEN conjunct2, THEN conjunct1, rule_format, OF l] r
  have "writerpn exampleConstants exampleState [] [0x50, 0x4B, 0] 3 0 =
        writerpn exampleConstants s'
          ([] @ RPN_BANK_SYM exampleConstants # fputlong (nbSymbols exampleState))
          [0x50, 0x4B, 0] 3 (0 + length [0x4B :: u8] + 2)"
    and "sym_ID (symbols s' 1) = nbSymbols exampleState"
    and "objectSymbols s' = objectSymbols exampleState @ [1]"
    by simp_all
  then have "writerpn exampleConstants exampleState [] [0x50, 0x4B, 0] 3 0
            = Inr ([0x50, 0, 0, 0, 0], s') \<and>
         sym_ID (symbols s' 1) = 0 \<and> objectSymbols s' = [1]"
    by (simp add: writerpn_done example_opcodes fputlong_def fputc_def)
       (simp add: exampleState_def)
  with c show ?thesis by blast
qed

lemma sameFrontEnd_refl: "sameFrontEnd s s"
  by (simp add: sameFrontEnd_def)

lemma sameFrontEnd_trans: "sameFrontEnd s s' \<Longrightarrow> sameFrontEnd s' s'' \<Longrightarrow> sameFrontEnd s s''"
  by (simp add: sameFrontEnd_def)

lemma register_sameFrontEnd:
  fixes s :: State
  shows "out_RegisterNode s a = Inr s' \<Longrightarrow> sameFrontEnd s s'"
  by (simp add: sameFrontEnd_def register_State)

lemma registerSymbol_sameFrontEnd: "registerSymbol s symbol = Inr s' \<Longrightarrow> sameFrontEnd s s'"
  by (simp add: sameFrontEnd_def registerSymbol_result)

lemma getSymbolID_sameFrontEnd: "getSymbolID s symbol = Inr (v, s') \<Longrightarrow> sameFrontEnd s s'"
  by (auto simp: getSymbolID_def sameFrontEnd_refl split: if_splits sum.splits
      dest: registerSymbol_sameFrontEnd)

lemma rpnStep_sameFrontEnd: "rpnStep k s rpn offset = Inr (bs, offset', s') \<Longrightarrow> sameFrontEnd s s'"
  by (auto simp: rpnStep_def sameFrontEnd_refl
      split: option.splits if_splits sum.splits prod.splits dest: getSymbolID_sameFrontEnd)

lemma writerpn_sameFrontEnd:
  "writerpn k s rpnexpr rpn rpnlen offset = Inr (out, s') \<Longrightarrow> sameFrontEnd s s'"
proof (induction k s rpnexpr rpn rpnlen offset rule: writerpn.induct)
  case (1 k s rpnexpr rpn rpnlen offset)
  show ?case
  proof (cases "offset < rpnlen")
    case False
    with "1.prems" show ?thesis by (simp add: writerpn.simps sameFrontEnd_refl)
  next
    case True
    with "1.prems" obtain bs offset' s1 where
      step: "rpnStep k s rpn offset = Inr (bs, offset', s1)"
      and rest: "writerpn k s1 (rpnexpr @ bs) rpn rpnlen offset' = Inr (out, s')"
      by (auto simp: writerpn.simps [of k s rpnexpr rpn rpnlen offset] split: sum.splits)
    from "1.IH" [OF True step refl refl rest] rpnStep_sameFrontEnd [OF step]
    show ?thesis by (blast intro: sameFrontEnd_trans)
  qed
qed

lemma allocpatch_sameFrontEnd:
  assumes "allocpatch k env s type expr ofs = Inr (patch, s')"
  shows "sameFrontEnd s s'"
proof -
  from assms obtain s1 where r: "out_RegisterNode s (fstk_GetFileStack env) = Inr s1"
    by (auto simp: allocpatch_def Let_def split: if_splits sum.splits)
  note f1 = register_sameFrontEnd [OF r]
  show ?thesis
  proof (cases "e_isKnown expr")
    case True
    with assms r have "s' = s1" by (auto simp: allocpatch_def Let_def split: if_splits)
    with f1 show ?thesis by simp
  next
    case False
    with assms r obtain rpnexpr where
      "writerpn k s1 [] (e_tRPN expr) (unat (e_nRPNLength expr)) 0 = Inr (rpnexpr, s')"
      by (auto simp: allocpatch_def Let_def split: if_splits sum.splits)
    from writerpn_sameFrontEnd [OF this] f1 show ?thesis by (blast intro: sameFrontEnd_trans)
  qed
qed

text \<open>
  C8. \<^verbatim>\<open>out_CreateAssert\<close> returns \<^verbatim>\<open>false\<close>, with the assertion list as it was, when the
  allocation of the assertion record fails (nothing at all has changed then) or when the
  copy of the message fails; it returns \<^verbatim>\<open>true\<close> with the new assertion in front of the
  list when every allocation succeeds.  Failures are fatal everywhere else: a fatal error
  inside \<^verbatim>\<open>allocpatch\<close> ends \<^verbatim>\<open>out_CreateAssert\<close> too, and a failed allocation in
  \<^verbatim>\<open>out_CreatePatch\<close> is fatal.
\<close>

theorem create_assert_failure_indicator:
  "(\<not> mallocAssertion env \<longrightarrow> out_CreateAssert k env s type expr message ofs = Inr (False, s)) \<and>
   (mallocAssertion env \<longrightarrow>
      (case allocpatch k env s type expr ofs of
         Inl e \<Rightarrow> out_CreateAssert k env s type expr message ofs = Inl e
       | Inr (patch, s') \<Rightarrow>
           assertions s' = assertions s \<and>
           (if strdupMessage env
            then out_CreateAssert k env s type expr message ofs =
                   Inr (True, s'\<lparr>assertions :=
                                  \<lparr>a_patch = patch, a_message = message\<rparr> # assertions s\<rparr>)
            else out_CreateAssert k env s type expr message ofs = Inr (False, s')))) \<and>
   (\<forall>b s'. out_CreateAssert k env s type expr message ofs = Inr (b, s') \<longrightarrow>
      (b \<longleftrightarrow> mallocAssertion env \<and> strdupMessage env) \<and>
      (if b then \<exists>patch. assertions s' = \<lparr>a_patch = patch, a_message = message\<rparr> # assertions s
       else assertions s' = assertions s)) \<and>
   (\<not> mallocPatch env \<longrightarrow> out_CreatePatch k env s type expr ofs = Inl NoMemoryForPatch) \<and>
   (mallocPatch env \<and> \<not> mallocRPN env \<longrightarrow>
      out_CreatePatch k env s type expr ofs = Inl NoMemoryForRPN)"
proof -
  have keep: "assertions s' = assertions s"
    if "allocpatch k env s type expr ofs = Inr (patch, s')" for patch s'
    using allocpatch_sameFrontEnd [OF that] by (simp add: sameFrontEnd_def)
  show ?thesis
  proof (intro conjI impI allI)
    show "out_CreateAssert k env s type expr message ofs = Inr (False, s)"
      if "\<not> mallocAssertion env"
      using that by (simp add: out_CreateAssert_def)
    show "case allocpatch k env s type expr ofs of
         Inl e \<Rightarrow> out_CreateAssert k env s type expr message ofs = Inl e
       | Inr (patch, s') \<Rightarrow>
           assertions s' = assertions s \<and>
           (if strdupMessage env
            then out_CreateAssert k env s type expr message ofs =
                   Inr (True, s'\<lparr>assertions :=
                                  \<lparr>a_patch = patch, a_message = message\<rparr> # assertions s\<rparr>)
            else out_CreateAssert k env s type expr message ofs = Inr (False, s'))"
      if "mallocAssertion env"
      using that keep by (auto simp: out_CreateAssert_def split: sum.splits)
    show "b \<longleftrightarrow> mallocAssertion env \<and> strdupMessage env"
      if "out_CreateAssert k env s type expr message ofs = Inr (b, s')" for b s'
      using that by (auto simp: out_CreateAssert_def split: sum.splits if_splits)
    show "if b then \<exists>patch. assertions s' = \<lparr>a_patch = patch, a_message = message\<rparr> # assertions s
       else assertions s' = assertions s"
      if "out_CreateAssert k env s type expr message ofs = Inr (b, s')" for b s'
      using that keep by (auto simp: out_CreateAssert_def split: sum.splits if_splits)
    show "out_CreatePatch k env s type expr ofs = Inl NoMemoryForPatch" if "\<not> mallocPatch env"
      using that by (simp add: out_CreatePatch_def allocpatch_def)
    show "out_CreatePatch k env s type expr ofs = Inl NoMemoryForRPN"
      if "mallocPatch env \<and> \<not> mallocRPN env"
      using that by (simp add: out_CreatePatch_def allocpatch_def)
  qed
qed

lemma allocpatch_known_returns:
  "e_isKnown expr \<Longrightarrow> mallocPatch env \<Longrightarrow> mallocRPN env \<Longrightarrow>
   out_RegisterNode s (fstk_GetFileStack env) = Inr s1 \<Longrightarrow>
   \<exists>patch. allocpatch k env s type expr ofs = Inr (patch, s1)"
  by (simp add: allocpatch_def Let_def)

lemma example_allocpatch_known:
  "fstk_GetFileStack env = 2 \<Longrightarrow> mallocPatch env \<Longrightarrow> mallocRPN env \<Longrightarrow>
   \<exists>patch. allocpatch exampleConstants env exampleState type knownExpr ofs
     = Inr (patch, linkNode (linkNode (linkNode exampleState 2) 1) 0)"
  using exampleState_register2
  by (intro allocpatch_known_returns) (simp_all add: knownExpr_def)

theorem create_assert_failure_indicator_witness:
  "out_CreateAssert exampleConstants (exampleEnv\<lparr>mallocAssertion := False\<rparr>) exampleState 3
     knownExpr [0x6D] 0 = Inr (False, exampleState) \<and>
   (\<exists>s'. out_CreateAssert exampleConstants (exampleEnv\<lparr>strdupMessage := False\<rparr>) exampleState 3
            knownExpr [0x6D] 0 = Inr (False, s') \<and> assertions s' = []) \<and>
   (\<exists>patch s'. out_CreateAssert exampleConstants exampleEnv exampleState 3
            knownExpr [0x6D] 0 = Inr (True, s') \<and>
          assertions s' = [\<lparr>a_patch = patch, a_message = [0x6D]\<rparr>])"
proof -
  let ?noRecord = "exampleEnv\<lparr>mallocAssertion := False\<rparr>"
  let ?noCopy = "exampleEnv\<lparr>strdupMessage := False\<rparr>"
  let ?s1 = "linkNode (linkNode (linkNode exampleState 2) 1) 0"
  have e: "assertions exampleState = []" by (simp add: exampleState_def)
  have n: "\<not> mallocAssertion ?noRecord" by (simp add: exampleEnv_def)
  note a = create_assert_failure_indicator [THEN conjunct1, rule_format, OF n,
      of exampleConstants exampleState 3 knownExpr "[0x6D]" 0]
  obtain p1 where p1: "allocpatch exampleConstants ?noCopy exampleState 3 knownExpr 0
    = Inr (p1, ?s1)"
    using example_allocpatch_known [of ?noCopy 3 0] by (auto simp: exampleEnv_def)
  have m1: "mallocAssertion ?noCopy" and d1: "\<not> strdupMessage ?noCopy"
    by (simp_all add: exampleEnv_def)
  from create_assert_failure_indicator [THEN conjunct2, THEN conjunct1, rule_format, OF m1,
      of exampleConstants exampleState 3 knownExpr "[0x6D]" 0]
  have b: "out_CreateAssert exampleConstants ?noCopy exampleState 3 knownExpr [0x6D] 0
    = Inr (False, ?s1) \<and> assertions ?s1 = assertions exampleState"
    by (simp only: p1 sum.case prod.case d1 if_False)
  obtain p2 where p2: "allocpatch exampleConstants exampleEnv exampleState 3 knownExpr 0
    = Inr (p2, ?s1)"
    using example_allocpatch_known [of exampleEnv 3 0] by (auto simp: exampleEnv_def)
  have m2: "mallocAssertion exampleEnv" and d2: "strdupMessage exampleEnv"
    by (simp_all add: exampleEnv_def)
  from create_assert_failure_indicator [THEN conjunct2, THEN conjunct1, rule_format, OF m2,
      of exampleConstants exampleState 3 knownExpr "[0x6D]" 0]
  have c: "out_CreateAssert exampleConstants exampleEnv exampleState 3 knownExpr [0x6D] 0
    = Inr (True, ?s1\<lparr>assertions := \<lparr>a_patch = p2, a_message = [0x6D]\<rparr> # assertions exampleState\<rparr>)"
    by (simp only: p2 sum.case prod.case d2 if_True)
  have c': "assertions (?s1\<lparr>assertions := \<lparr>a_patch = p2, a_message = [0x6D]\<rparr> # assertions exampleState\<rparr>)
    = [\<lparr>a_patch = p2, a_message = [0x6D]\<rparr>]"
    by (simp add: e)
  from b e have b': "assertions ?s1 = []" by simp
  from a b b' c c' show ?thesis by blast
qed

lemma allocpatch_fields:
  "allocpatch k env s type expr ofs = Inr (patch, s') \<Longrightarrow>
   p_nOffset patch = ofs \<and> p_lineNo patch = lexer_GetLineNo env \<and> p_type patch = ucast type \<and>
   p_src patch = fstk_GetFileStack env"
  by (auto simp: allocpatch_def Let_def split: if_splits sum.splits)

lemma createPatch_prepends:
  assumes "out_CreatePatch k env s type expr ofs = Inr s'"
  shows "pCurrentSection s' = pCurrentSection s \<and>
    (\<exists>patch. p_nOffset patch = ofs \<and> p_lineNo patch = lexer_GetLineNo env \<and>
       sect_patches (sections s' (pCurrentSection s))
         = patch # sect_patches (sections s (pCurrentSection s)))"
proof -
  from assms obtain patch s1 where a: "allocpatch k env s type expr ofs = Inr (patch, s1)"
    and s': "s' = s1\<lparr>sections := (sections s1)(pCurrentSection s1 :=
                   (sections s1 (pCurrentSection s1))
                     \<lparr>sect_patches := patch # sect_patches (sections s1 (pCurrentSection s1))\<rparr>)\<rparr>"
    by (auto simp: out_CreatePatch_def split: sum.splits)
  from allocpatch_sameFrontEnd [OF a] have f: "sections s1 = sections s"
    "pCurrentSection s1 = pCurrentSection s"
    by (simp_all add: sameFrontEnd_def)
  from allocpatch_fields [OF a] s' f show ?thesis by auto
qed

lemma createPatches_reverse:
  "createPatches k s calls = Inr s' \<Longrightarrow>
   pCurrentSection s' = pCurrentSection s \<and>
   (\<exists>ps. map p_nOffset ps = map (\<lambda>(env, type, expr, ofs). ofs) calls \<and>
         map p_lineNo ps = map (\<lambda>(env, type, expr, ofs). lexer_GetLineNo env) calls \<and>
         sect_patches (sections s' (pCurrentSection s))
           = rev ps @ sect_patches (sections s (pCurrentSection s)))"
proof (induction calls arbitrary: s)
  case Nil
  then show ?case by simp
next
  case (Cons c rest)
  obtain env type expr ofs where c: "c = (env, type, expr, ofs)" by (cases c) auto
  with Cons.prems obtain s1 where one: "out_CreatePatch k env s type expr ofs = Inr s1"
    and more: "createPatches k s1 rest = Inr s'"
    by (auto split: sum.splits)
  from createPatch_prepends [OF one] obtain patch where
    cur: "pCurrentSection s1 = pCurrentSection s"
    and p: "p_nOffset patch = ofs" "p_lineNo patch = lexer_GetLineNo env"
    and l: "sect_patches (sections s1 (pCurrentSection s))
         = patch # sect_patches (sections s (pCurrentSection s))"
    by blast
  from Cons.IH [OF more, unfolded cur] obtain ps where
    cur': "pCurrentSection s' = pCurrentSection s"
    and m: "map p_nOffset ps = map (\<lambda>(env, type, expr, ofs). ofs) rest"
      "map p_lineNo ps = map (\<lambda>(env, type, expr, ofs). lexer_GetLineNo env) rest"
    and l': "sect_patches (sections s' (pCurrentSection s))
           = rev ps @ sect_patches (sections s1 (pCurrentSection s))"
    by blast
  show ?case
  proof (intro conjI exI [of _ "patch # ps"])
    show "pCurrentSection s' = pCurrentSection s" by (rule cur')
    show "map p_nOffset (patch # ps) = map (\<lambda>(env, type, expr, ofs). ofs) (c # rest)"
      using m p c by simp
    show "map p_lineNo (patch # ps)
      = map (\<lambda>(env, type, expr, ofs). lexer_GetLineNo env) (c # rest)"
      using m p c by simp
    show "sect_patches (sections s' (pCurrentSection s))
           = rev (patch # ps) @ sect_patches (sections s (pCurrentSection s))"
      using l l' by simp
  qed
qed

lemma countpatches_loop_length: "countpatches_loop ps r = r + of_nat (length ps)"
  by (induction ps arbitrary: r) simp_all

lemma writepatches_iff:
  "writepatches s ps f = Inr out \<longleftrightarrow>
   (\<exists>recs. map (writepatch s) ps = map Inr recs \<and> out = f @ concat recs)"
proof (induction ps arbitrary: f)
  case Nil
  then show ?case by auto
next
  case (Cons p ps)
  show ?case
  proof (cases "writepatch s p")
    case (Inl e)
    then show ?thesis by (auto simp: map_eq_Cons_conv)
  next
    case (Inr bytes)
    have "(\<exists>recs. map (writepatch s) (p # ps) = map Inr recs \<and> out = f @ concat recs)
      \<longleftrightarrow> (\<exists>recs'. map (writepatch s) ps = map Inr recs' \<and> out = (f @ bytes) @ concat recs')"
      using Inr by (auto simp: map_eq_Cons_conv Cons_eq_map_conv)
    with Cons.IH [of "f @ bytes"] Inr show ?thesis by simp
  qed
qed

text \<open>
  C10. \<^verbatim>\<open>out_CreatePatch\<close> puts the new patch in front of the patch list of the current
  section, so after a sequence of calls the list holds the created patches in reverse
  creation order, in front of the patches that were there.  \<^verbatim>\<open>writesection\<close> writes, for a
  section with data, the patch count and then the patch records in list order: the patch
  created last comes first.
\<close>

theorem patches_written_in_reverse_creation_order:
  "(out_CreatePatch k env s type expr ofs = Inr s' \<longrightarrow>
      pCurrentSection s' = pCurrentSection s \<and>
      (\<exists>patch. p_nOffset patch = ofs \<and> p_lineNo patch = lexer_GetLineNo env \<and>
         sect_patches (sections s' (pCurrentSection s))
           = patch # sect_patches (sections s (pCurrentSection s)))) \<and>
   (createPatches k s calls = Inr s' \<longrightarrow>
      (\<exists>ps. map p_nOffset ps = map (\<lambda>(env, type, expr, ofs). ofs) calls \<and>
            map p_lineNo ps = map (\<lambda>(env, type, expr, ofs). lexer_GetLineNo env) calls \<and>
            sect_patches (sections s' (pCurrentSection s))
              = rev ps @ sect_patches (sections s (pCurrentSection s)))) \<and>
   (sect_HasData k (sect_type sect) \<longrightarrow>
      (writesection k st sect = Inr out \<longleftrightarrow>
         (\<exists>recs. map (writepatch st) (sect_patches sect) = map Inr recs \<and>
            out = sectionHeader sect @ take (unat (sect_size sect)) (sect_data sect) @
                  fputlong (of_nat (length (sect_patches sect))) @ concat recs)))"
proof (intro conjI impI)
  assume "out_CreatePatch k env s type expr ofs = Inr s'"
  from createPatch_prepends [OF this]
  show "pCurrentSection s' = pCurrentSection s"
    and "\<exists>patch. p_nOffset patch = ofs \<and> p_lineNo patch = lexer_GetLineNo env \<and>
         sect_patches (sections s' (pCurrentSection s))
           = patch # sect_patches (sections s (pCurrentSection s))"
    by simp_all
next
  assume "createPatches k s calls = Inr s'"
  from createPatches_reverse [OF this]
  show "\<exists>ps. map p_nOffset ps = map (\<lambda>(env, type, expr, ofs). ofs) calls \<and>
            map p_lineNo ps = map (\<lambda>(env, type, expr, ofs). lexer_GetLineNo env) calls \<and>
            sect_patches (sections s' (pCurrentSection s))
              = rev ps @ sect_patches (sections s (pCurrentSection s))"
    by simp
next
  assume "sect_HasData k (sect_type sect)"
  then show "writesection k st sect = Inr out \<longleftrightarrow>
         (\<exists>recs. map (writepatch st) (sect_patches sect) = map Inr recs \<and>
            out = sectionHeader sect @ take (unat (sect_size sect)) (sect_data sect) @
                  fputlong (of_nat (length (sect_patches sect))) @ concat recs)"
    by (simp add: writesection_def writepatches_iff countpatches_def countpatches_loop_length)
qed

lemma example_writepatch:
  "writepatch (linkNode exampleState 0) (examplePatch ofs) = Inr (examplePatchRecord ofs)"
  by (simp add: writepatch_def examplePatch_def examplePatchRecord_def getSectIDIfAny_def
      linkNode_def exampleState_def getNbFileStackNodes_def fputc_def)

lemma example_two_patches:
  "\<exists>s'. createPatches exampleConstants exampleState
          [(exampleEnv, 1, knownExpr, 0), (exampleEnv, 1, knownExpr, 1)] = Inr s'"
proof -
  let ?s1 = "linkNode (linkNode (linkNode exampleState 2) 1) 0"
  have env: "fstk_GetFileStack exampleEnv = 2" "mallocPatch exampleEnv" "mallocRPN exampleEnv"
    by (simp_all add: exampleEnv_def)
  have kn: "e_isKnown knownExpr" by (simp add: knownExpr_def)
  from example_allocpatch_known [OF env] obtain p1 where
    "allocpatch exampleConstants exampleEnv exampleState 1 knownExpr 0 = Inr (p1, ?s1)"
    by blast
  then obtain t where one: "out_CreatePatch exampleConstants exampleEnv exampleState 1 knownExpr 0
    = Inr t" and t: "nodes t = nodes ?s1"
    by (simp add: out_CreatePatch_def)
  have "n_ID (nodes t 2) \<noteq> -1"
    by (simp add: t linkNode_def getNbFileStackNodes_def exampleState_def)
  then have "out_RegisterNode t 2 = Inr t" by (rule register_registered)
  then have "out_RegisterNode t (fstk_GetFileStack exampleEnv) = Inr t"
    by (simp only: env)
  from allocpatch_known_returns [OF kn env(2,3) this] obtain p2 where
    "allocpatch exampleConstants exampleEnv t 1 knownExpr 1 = Inr (p2, t)"
    by blast
  then obtain u where "out_CreatePatch exampleConstants exampleEnv t 1 knownExpr 1 = Inr u"
    by (simp add: out_CreatePatch_def)
  with one show ?thesis by simp
qed

theorem patches_written_in_reverse_creation_order_witness:
  "(\<exists>s'. createPatches exampleConstants exampleState
          [(exampleEnv, 1, knownExpr, 0), (exampleEnv, 1, knownExpr, 1)] = Inr s' \<and>
        map p_nOffset (sect_patches (sections s' (pCurrentSection exampleState))) = [1, 0]) \<and>
   writesection exampleConstants (linkNode exampleState 0)
     (exampleSection\<lparr>sect_patches := [examplePatch 1, examplePatch 0]\<rparr>)
     = Inr (sectionHeader exampleSection @ [0, 0] @ fputlong 2 @
            examplePatchRecord 1 @ examplePatchRecord 0)"
proof -
  let ?calls = "[(exampleEnv, 1 :: u32, knownExpr, 0 :: u32), (exampleEnv, 1, knownExpr, 1)]"
  from example_two_patches obtain s' where
    run: "createPatches exampleConstants exampleState ?calls = Inr s'" ..
  from patches_written_in_reverse_creation_order [THEN conjunct2, THEN conjunct1, rule_format,
      OF run]
  obtain ps where all: "map p_nOffset ps = map (\<lambda>(env, type, expr, ofs). ofs) ?calls \<and>
      map p_lineNo ps = map (\<lambda>(env, type, expr, ofs). lexer_GetLineNo env) ?calls \<and>
      sect_patches (sections s' (pCurrentSection exampleState))
        = rev ps @ sect_patches (sections exampleState (pCurrentSection exampleState))" ..
  then have m: "map p_nOffset ps = map (\<lambda>(env, type, expr, ofs). ofs) ?calls"
    and l: "sect_patches (sections s' (pCurrentSection exampleState))
              = rev ps @ sect_patches (sections exampleState (pCurrentSection exampleState))"
    by simp_all
  from m have "map p_nOffset (rev ps) = [1, 0]" by (simp add: rev_map [symmetric])
  with l have a: "map p_nOffset (sect_patches (sections s' (pCurrentSection exampleState))) = [1, 0]"
    by (simp add: exampleState_def exampleSection_def)
  let ?sect = "exampleSection\<lparr>sect_patches := [examplePatch 1, examplePatch 0]\<rparr>"
  have d: "sect_HasData exampleConstants (sect_type ?sect)"
    by (simp add: exampleConstants_def exampleSection_def)
  have "\<exists>recs. map (writepatch (linkNode exampleState 0)) (sect_patches ?sect) = map Inr recs \<and>
    sectionHeader exampleSection @ [0, 0] @ fputlong 2 @ examplePatchRecord 1 @ examplePatchRecord 0
      = sectionHeader ?sect @ take (unat (sect_size ?sect)) (sect_data ?sect) @
        fputlong (of_nat (length (sect_patches ?sect))) @ concat recs"
    by (rule exI [of _ "[examplePatchRecord 1, examplePatchRecord 0]"])
       (simp add: example_writepatch exampleSection_def sectionHeader_def)
  with patches_written_in_reverse_creation_order [THEN conjunct2, THEN conjunct2, rule_format,
      OF d, of "linkNode exampleState 0"]
  have "writesection exampleConstants (linkNode exampleState 0) ?sect
     = Inr (sectionHeader exampleSection @ [0, 0] @ fputlong 2 @
            examplePatchRecord 1 @ examplePatchRecord 0)"
    by blast
  moreover from run a have "\<exists>s'. createPatches exampleConstants exampleState
          [(exampleEnv, 1, knownExpr, 0), (exampleEnv, 1, knownExpr, 1)] = Inr s' \<and>
        map p_nOffset (sect_patches (sections s' (pCurrentSection exampleState))) = [1, 0]"
    by (intro exI [of _ s'] conjI)
  ultimately show ?thesis by (intro conjI)
qed







lemma registers_unchanged:
  assumes "symbols s' = symbols s" and "objectSymbols s' = objectSymbols s"
    and "nbSymbols s' = nbSymbols s" and "symbolTable s' = symbolTable s"
  shows "registers s s' {}"
  using assms by (simp add: registers_def sameSymbolFlags_def symbolsConsistent_def)







subsection \<open>Symbol IDs in rewritten expressions\<close>


































lemma linkNode_State [simp]:
  fixes s :: State
  shows "symbols (linkNode s a) = symbols s" "symbolTable (linkNode s a) = symbolTable s"
    "objectSymbols (linkNode s a) = objectSymbols s" "nbSymbols (linkNode s a) = nbSymbols s"
    "assertions (linkNode s a) = assertions s" "sections (linkNode s a) = sections s"
    "pSectionList (linkNode s a) = pSectionList s"
    "pCurrentSection (linkNode s a) = pCurrentSection s"
  by (simp_all add: linkNode_def)



























end
